theory Spec2Isabelle
  imports Complex_Main
begin

section \<open>The queue scheduler of \<^verbatim>\<open>src/classes/queue-scheduler.ts\<close>\<close>

text \<open>
  The class \<^verbatim>\<open>QueueScheduler\<close> is embedded as functions over an explicit record of
  the instance state. Every remote call the class awaits (the two Lua scripts, the
  stream reads, the trim, the backoff timer) is an input of the model: the caller of a
  function supplies what the call answered, and how many calls of \<^verbatim>\<open>close()\<close> arrived
  while the scheduler was suspended in that \<^verbatim>\<open>await\<close>. What the scheduler itself does
  (commands sent, events emitted) is appended to a trace in the state.
\<close>

subsection \<open>JavaScript numbers\<close>

text \<open>
  A \<^verbatim>\<open>number\<close> is \<^verbatim>\<open>NaN\<close>, an infinity or a real; minus zero is not told from zero,
  which no expression of the class does either. Subtraction of two reals is exact (no
  rounding to a double): timestamps are integers far below \<open>2^53\<close>, where a double is
  exact. \<^verbatim>\<open>Number.MAX_VALUE\<close> is \<open>(2 - 2^-52) * 2^1023\<close>.
\<close>

datatype number = NaN | NegInfinity | Num real | Infinity

definition MAX_VALUE :: real where
  "MAX_VALUE = 2 ^ 1024 - 2 ^ 971"

fun truthy :: "number \<Rightarrow> bool" where
  "truthy NaN = False"
| "truthy (Num x) = (x \<noteq> 0)"
| "truthy _ = True"

fun js_minus :: "number \<Rightarrow> number \<Rightarrow> number" where
  "js_minus (Num x) (Num y) = Num (x - y)"
| "js_minus NaN _ = NaN"
| "js_minus _ NaN = NaN"
| "js_minus Infinity Infinity = NaN"
| "js_minus NegInfinity NegInfinity = NaN"
| "js_minus Infinity _ = Infinity"
| "js_minus NegInfinity _ = NegInfinity"
| "js_minus _ Infinity = NegInfinity"
| "js_minus _ NegInfinity = Infinity"

fun js_less :: "number \<Rightarrow> number \<Rightarrow> bool" where
  "js_less (Num x) (Num y) = (x < y)"
| "js_less NaN _ = False"
| "js_less _ NaN = False"
| "js_less Infinity _ = False"
| "js_less _ NegInfinity = False"
| "js_less _ _ = True"

fun js_le :: "number \<Rightarrow> number \<Rightarrow> bool" where
  "js_le (Num x) (Num y) = (x \<le> y)"
| "js_le NaN _ = False"
| "js_le _ NaN = False"
| "js_le NegInfinity _ = True"
| "js_le _ Infinity = True"
| "js_le _ _ = False"

fun Math_max :: "number \<Rightarrow> number \<Rightarrow> number" where
  "Math_max (Num x) (Num y) = Num (max x y)"
| "Math_max NaN _ = NaN"
| "Math_max _ NaN = NaN"
| "Math_max Infinity _ = Infinity"
| "Math_max _ Infinity = Infinity"
| "Math_max NegInfinity b = b"
| "Math_max a NegInfinity = a"

fun Math_min :: "number \<Rightarrow> number \<Rightarrow> number" where
  "Math_min (Num x) (Num y) = Num (min x y)"
| "Math_min NaN _ = NaN"
| "Math_min _ NaN = NaN"
| "Math_min NegInfinity _ = NegInfinity"
| "Math_min _ NegInfinity = NegInfinity"
| "Math_min Infinity b = b"
| "Math_min a Infinity = a"

text \<open>\<^verbatim>\<open>Math.round\<close>: the nearest integer, a tie going towards plus infinity.\<close>

fun Math_round :: "number \<Rightarrow> number" where
  "Math_round (Num x) = Num (of_int \<lfloor>x + 1 / 2\<rfloor>)"
| "Math_round n = n"

subsection \<open>The number value of an integer\<close>

text \<open>
  An integer below \<open>2^53\<close> in magnitude is a double. A larger one is rounded to the
  nearest double, a multiple of \<open>2^(b - 53)\<close> for an integer of \<open>b\<close> bits, a tie going
  to the even significand; from \<open>2^1024\<close> on the rounded value is an infinity.
\<close>

fun bitLength :: "nat \<Rightarrow> nat" where
  "bitLength n = (if n = 0 then 0 else Suc (bitLength (n div 2)))"

declare bitLength.simps [simp del]

definition halfEven :: "nat \<Rightarrow> nat \<Rightarrow> nat" where
  "halfEven q n =
     (let k = n div q; r = n mod q
      in (if 2 * r < q \<or> (2 * r = q \<and> even k) then k else k + 1) * q)"

definition toDouble :: "int \<Rightarrow> number" where
  "toDouble n =
     (if \<bar>n\<bar> < 2 ^ 53 then Num (of_int n)
      else (let a = nat \<bar>n\<bar>;
                v = halfEven (2 ^ (bitLength a - 53)) a
            in if 2 ^ 1024 \<le> v then (if n < 0 then NegInfinity else Infinity)
               else Num (of_int (sgn n * int v))))"

subsection \<open>\<^verbatim>\<open>parseInt\<close> with no radix\<close>

text \<open>
  A string that \<^verbatim>\<open>parseInt\<close> reads is the list of its UTF-16 code units; \<open>ascii\<close>
  gives the code units of an ASCII literal. Strings that the scheduler only passes on
  (positions, keys, job identifiers, messages) stay plain strings.
\<close>

type_synonym jsString = "nat list"

definition ascii :: "string \<Rightarrow> jsString" where
  "ascii str = map of_char str"

text \<open>
  White space and line terminators: TAB, LF, VT, FF, CR, SP, NBSP, U+1680, U+2000 to
  U+200A, U+2028, U+2029, U+202F, U+205F, U+3000 and U+FEFF.
\<close>

definition isWhite :: "nat \<Rightarrow> bool" where
  "isWhite u =
     (u \<in> set [0x09, 0x0A, 0x0B, 0x0C, 0x0D, 0x20, 0xA0, 0x1680, 0x2028, 0x2029, 0x202F,
               0x205F, 0x3000, 0xFEFF] \<or>
      (0x2000 \<le> u \<and> u \<le> 0x200A))"

definition digitOf :: "nat \<Rightarrow> nat \<Rightarrow> nat option" where
  "digitOf R u =
     (let v = (if 48 \<le> u \<and> u \<le> 57 then Some (u - 48)
               else if 97 \<le> u \<and> u \<le> 122 then Some (u - 87)
               else if 65 \<le> u \<and> u \<le> 90 then Some (u - 55)
               else None)
      in case v of None \<Rightarrow> None | Some d \<Rightarrow> if d < R then Some d else None)"

fun digitsPrefix :: "nat \<Rightarrow> jsString \<Rightarrow> nat list" where
  "digitsPrefix R [] = []"
| "digitsPrefix R (u # us) =
     (case digitOf R u of None \<Rightarrow> [] | Some d \<Rightarrow> d # digitsPrefix R us)"

definition mathInt :: "nat \<Rightarrow> nat list \<Rightarrow> nat" where
  "mathInt R ds = foldl (\<lambda>acc d. acc * R + d) 0 ds"

text \<open>
  The argument is \<open>None\<close> for \<^verbatim>\<open>undefined\<close>, which \<^verbatim>\<open>parseInt\<close> first turns into the
  string \<^verbatim>\<open>"undefined"\<close>. Leading white space is skipped, then a sign, then a
  \<^verbatim>\<open>0x\<close> prefix selects radix 16; the longest prefix of digits is read, and no digit
  at all gives \<^verbatim>\<open>NaN\<close>. The result is the number value of the signed integer read (for
  more than 20 decimal digits the language lets an engine round the digits first;
  here the integer is rounded once, as V8 does).
\<close>

definition parseInt :: "jsString option \<Rightarrow> number" where
  "parseInt v =
     (let inputString = (case v of None \<Rightarrow> ascii ''undefined'' | Some str \<Rightarrow> str);
          S = dropWhile isWhite inputString;
          sign = (if take 1 S = ascii ''-'' then - 1 else 1 :: int);
          S1 = (if take 1 S = ascii ''+'' \<or> take 1 S = ascii ''-'' then drop 1 S else S);
          hex = (take 2 S1 = ascii ''0x'' \<or> take 2 S1 = ascii ''0X'');
          R = (if hex then 16 else 10);
          Z = digitsPrefix R (if hex then drop 2 S1 else S1)
      in if Z = [] then NaN else toDouble (sign * int (mathInt R Z)))"

subsection \<open>Errors, outcomes of awaited calls, and what lies outside the file\<close>

datatype error = Error (message: string)

datatype 'a outcome = Throws error | Returns 'a

text \<open>
  An awaited call: the number of \<^verbatim>\<open>close()\<close> calls that arrive while the scheduler is
  suspended in the \<^verbatim>\<open>await\<close>, and what the call then answers.
\<close>

type_synonym 'a awaited = "nat \<times> 'a outcome"

text \<open>
  The helpers the class imports from \<^verbatim>\<open>../utils\<close> and inherits from
  \<^verbatim>\<open>QueueBase\<close> are parameters. \<open>checkConnectionError\<close> stands for the inherited
  guard: given the error of the wrapped call it says whether the guard throws (and
  what) or completes with \<^verbatim>\<open>undefined\<close>; events or pauses of the guard's own are not
  recorded.
\<close>

record externals =
  array2obj :: "jsString list \<Rightarrow> jsString \<Rightarrow> jsString option"
  isNotConnectionError :: "error \<Rightarrow> bool"
  clientCommandMessageReg_test :: "string \<Rightarrow> bool"
  DELAY_TIME_5 :: int
  checkConnectionError :: "error \<Rightarrow> error option"
  keys_delay :: "string \<Rightarrow> string"

definition guarded :: "externals \<Rightarrow> 'a outcome \<Rightarrow> 'a option outcome" where
  "guarded X r =
     (case r of
        Returns v \<Rightarrow> Returns (Some v)
      | Throws e \<Rightarrow>
          (case checkConnectionError X e of
             Some e' \<Rightarrow> Throws e'
           | None \<Rightarrow> Returns None))"

text \<open>\<^verbatim>\<open>const [a, b] = await ...\<close>: destructuring \<^verbatim>\<open>undefined\<close> is a TypeError.\<close>

definition destructure :: "'a option outcome \<Rightarrow> 'a outcome" where
  "destructure r =
     (case r of
        Throws e \<Rightarrow> Throws e
      | Returns None \<Rightarrow> Throws (Error ''TypeError: undefined is not iterable'')
      | Returns (Some v) \<Rightarrow> Returns v)"

subsection \<open>Options and instance state\<close>

text \<open>A property of an options object: absent, present with \<^verbatim>\<open>undefined\<close>, or set.\<close>

datatype 'a optional = Missing | Undefined | Given 'a

record QueueSchedulerOptions =
  autorun :: "bool optional"
  maxStalledCount :: "number optional"
  stalledInterval :: "number optional"

text \<open>Object spread \<^verbatim>\<open>{k: d, ...opts}\<close>: an own property of \<open>opts\<close> wins, even \<^verbatim>\<open>undefined\<close>.\<close>

fun spread :: "'a \<Rightarrow> 'a optional \<Rightarrow> 'a optional" where
  "spread d Missing = Given d"
| "spread d p = p"

text \<open>A destructuring default \<^verbatim>\<open>{k = d}\<close> applies to an absent and to an \<^verbatim>\<open>undefined\<close> property.\<close>

fun withDefault :: "'a \<Rightarrow> 'a optional \<Rightarrow> 'a" where
  "withDefault d (Given v) = v"
| "withDefault d _ = d"

fun toNumber :: "number optional \<Rightarrow> number" where
  "toNumber (Given n) = n"
| "toNumber _ = NaN"

datatype shutdown = Disconnect | Close

datatype promise = Promise nat

datatype event =
    ErrorEvent error
  | FailedEvent string error string
  | StalledEvent string string

datatype action =
    WaitUntilReady
  | ClientSetname
  | ScriptUpdateDelaySet number
  | ScriptMoveStalledJobsToWait
  | XreadBlock number string "string option"
  | Xread string "string option"
  | Xtrim string nat
  | Delay int
  | Emit event

text \<open>
  \<open>closing\<close> is the pending shutdown promise of \<^verbatim>\<open>QueueBase\<close>; \<open>shutdowns\<close> lists the
  calls of \<^verbatim>\<open>this.disconnect()\<close> and \<^verbatim>\<open>super.close()\<close> made so far, and the promise
  a call returns is numbered by its position in that list.
\<close>

record scheduler =
  name :: string
  opts :: QueueSchedulerOptions
  nextTimestamp :: number
  isBlocked :: bool
  running :: bool
  closing :: "promise option"
  shutdowns :: "shutdown list"
  trace :: "action list"

definition act :: "action \<Rightarrow> scheduler \<Rightarrow> scheduler" where
  "act a s = s\<lparr>trace := trace s @ [a]\<rparr>"

text \<open>
  \<^verbatim>\<open>this.emit\<close> hands the event to the listeners, which are outside the class; the
  model records the event and takes the listeners to return.
\<close>

definition emit :: "event \<Rightarrow> scheduler \<Rightarrow> scheduler" where
  "emit ev s = act (Emit ev) s"

subsection \<open>\<^verbatim>\<open>close\<close>\<close>

definition close :: "scheduler \<Rightarrow> promise \<times> scheduler" where
  "close s =
     (case closing s of
        Some p \<Rightarrow> (p, s)
      | None \<Rightarrow>
          (let p = Promise (length (shutdowns s));
               how = (if isBlocked s then Disconnect else Close)
           in (p, s\<lparr>closing := Some p, shutdowns := shutdowns s @ [how]\<rparr>)))"

fun closeCalls :: "nat \<Rightarrow> scheduler \<Rightarrow> scheduler" where
  "closeCalls 0 s = s"
| "closeCalls (Suc n) s = closeCalls n (snd (close s))"

definition await :: "'a awaited \<Rightarrow> scheduler \<Rightarrow> 'a outcome \<times> scheduler" where
  "await call s = (snd call, closeCalls (fst call) s)"

subsection \<open>The private methods\<close>

definition moveStalledJobsToWait ::
  "(string list \<times> string list) awaited \<Rightarrow> scheduler \<Rightarrow> unit outcome \<times> scheduler" where
  "moveStalledJobsToWait script s =
     (if closing s = None then
        (case await script (act ScriptMoveStalledJobsToWait s) of
           (Throws e, s1) \<Rightarrow> (Throws e, s1)
         | (Returns (failed, stalled), s1) \<Rightarrow>
             (Returns (),
              fold (\<lambda>jobId. emit (StalledEvent jobId ''active'')) stalled
                (fold (\<lambda>jobId. emit (FailedEvent jobId
                    (Error ''job stalled more than allowable limit'') ''active'')) failed s1)))
      else (Returns (), s))"

type_synonym streamEntry = "string \<times> jsString list"

type_synonym StreamReadRaw = "(string \<times> streamEntry list) list"

text \<open>
  \<open>xread\<close> is the answer of the stream read (\<open>None\<close> for \<^verbatim>\<open>null\<close>), \<open>backoff\<close> the
  number of \<^verbatim>\<open>close()\<close> calls arriving during \<^verbatim>\<open>await delay(DELAY_TIME_5)\<close>. The
  \<^verbatim>\<open>finally\<close> block runs after the \<^verbatim>\<open>catch\<close> block, so after that pause.
\<close>

definition readDelayedData ::
  "externals \<Rightarrow> StreamReadRaw option awaited \<Rightarrow> nat \<Rightarrow> string \<Rightarrow> string option \<Rightarrow> number
     \<Rightarrow> scheduler \<Rightarrow> StreamReadRaw option outcome \<times> scheduler" where
  "readDelayedData X xread backoff key streamLastId blockTime s =
     (if closing s = None then
        (if truthy blockTime then
           (case await xread (act (XreadBlock blockTime key streamLastId) (s\<lparr>isBlocked := True\<rparr>)) of
              (Returns data, s1) \<Rightarrow> (Returns data, s1\<lparr>isBlocked := False\<rparr>)
            | (Throws err, s1) \<Rightarrow>
                (if isNotConnectionError X err then (Throws err, s1\<lparr>isBlocked := False\<rparr>)
                 else (Returns None,
                       (closeCalls backoff (act (Delay (DELAY_TIME_5 X)) s1))\<lparr>isBlocked := False\<rparr>)))
         else
           (case await xread (act (Xread key streamLastId) s) of
              (r, s1) \<Rightarrow>
                (case guarded X r of
                   Throws e \<Rightarrow> (Throws e, s1)
                 | Returns None \<Rightarrow> (Returns None, s1)
                 | Returns (Some data) \<Rightarrow> (Returns data, s1))))
      else (Returns None, s))"

definition updateDelaySet ::
  "externals \<Rightarrow> (number \<times> string option) awaited \<Rightarrow> number \<Rightarrow> scheduler
     \<Rightarrow> (number \<times> string option) option outcome \<times> scheduler" where
  "updateDelaySet X script timestamp s =
     (if closing s = None then
        (case await script (act (ScriptUpdateDelaySet timestamp) s) of
           (r, s1) \<Rightarrow> (guarded X r, s1))
      else (Returns (Some (Num 0, Some ''0'')), s))"

subsection \<open>One pass of the loop of \<^verbatim>\<open>run\<close>\<close>

definition parsedTimestamp :: "externals \<Rightarrow> streamEntry \<Rightarrow> number" where
  "parsedTimestamp X ev = parseInt (array2obj X (snd ev) (ascii ''nextTimestamp''))"

text \<open>The \<^verbatim>\<open>for\<close> loop over the events of the first stream (lines 178 to 186).\<close>

fun processEvents ::
  "externals \<Rightarrow> streamEntry list \<Rightarrow> string option \<times> scheduler \<Rightarrow> string option \<times> scheduler" where
  "processEvents X [] (streamLastId, s) = (streamLastId, s)"
| "processEvents X (ev # events) (streamLastId, s) =
     processEvents X events
       (Some (fst ev),
        if js_less (parsedTimestamp X ev) (nextTimestamp s)
        then s\<lparr>nextTimestamp := parsedTimestamp X ev\<rparr> else s)"

record iteration =
  stalledJobs :: "(string list \<times> string list) awaited"
  now1 :: int
  xread :: "StreamReadRaw option awaited"
  backoff :: nat
  xtrim :: "unit awaited"
  now2 :: int
  delaySet :: "(number \<times> string option) awaited"

definition blockTime :: "number \<Rightarrow> number \<Rightarrow> int \<Rightarrow> number" where
  "blockTime interval next now =
     Math_round (Math_min interval (Math_max (js_minus next (Num (of_int now))) (Num 0)))"

text \<open>Lines 174 to 197: apply the events of the first stream, then trim.\<close>

definition applyData ::
  "externals \<Rightarrow> iteration \<Rightarrow> string \<Rightarrow> StreamReadRaw option \<Rightarrow> string option \<times> scheduler
     \<Rightarrow> unit outcome \<times> string option \<times> scheduler" where
  "applyData X it key data cs =
     (case data of
        None \<Rightarrow> (Returns (), cs)
      | Some [] \<Rightarrow> (Returns (), cs)
      | Some (stream # _) \<Rightarrow>
          (case processEvents X (snd stream) cs of
             (streamLastId, s1) \<Rightarrow>
               (if closing s1 = None then
                  (case await (xtrim it) (act (Xtrim key 100) s1) of
                     (r, s2) \<Rightarrow>
                       (case guarded X r of
                          Throws e \<Rightarrow> (Throws e, streamLastId, s2)
                        | Returns _ \<Rightarrow> (Returns (), streamLastId, s2)))
                else (Returns (), streamLastId, s1))))"

text \<open>Lines 199 to 211: promote the due jobs when the next timestamp has passed.\<close>

definition promotion ::
  "externals \<Rightarrow> iteration \<Rightarrow> string option \<times> scheduler
     \<Rightarrow> unit outcome \<times> string option \<times> scheduler" where
  "promotion X it cs =
     (case cs of (streamLastId, s) \<Rightarrow>
        (let now = Num (of_int (now2 it));
             nextDelayedJobDelay = js_minus (nextTimestamp s) now
         in if js_le nextDelayedJobDelay (Num 0) then
              (case updateDelaySet X (delaySet it) now s of
                 (r, s1) \<Rightarrow>
                   (case destructure r of
                      Throws e \<Rightarrow> (Throws e, streamLastId, s1)
                    | Returns (nextTs, id') \<Rightarrow>
                        (if truthy nextTs
                         then (Returns (), id', s1\<lparr>nextTimestamp := nextTs\<rparr>)
                         else (Returns (), streamLastId, s1\<lparr>nextTimestamp := Num MAX_VALUE\<rparr>))))
            else (Returns (), streamLastId, s)))"

definition iteration ::
  "externals \<Rightarrow> iteration \<Rightarrow> string \<Rightarrow> string option \<times> scheduler
     \<Rightarrow> unit outcome \<times> string option \<times> scheduler" where
  "iteration X it key cs =
     (case cs of (streamLastId, s) \<Rightarrow>
        (case moveStalledJobsToWait (stalledJobs it) s of
           (r0, s0) \<Rightarrow>
             (case guarded X r0 of
                Throws e \<Rightarrow> (Throws e, streamLastId, s0)
              | Returns _ \<Rightarrow>
                  (case readDelayedData X (xread it) (backoff it) key streamLastId
                          (blockTime (toNumber (stalledInterval (opts s0))) (nextTimestamp s0) (now1 it)) s0 of
                     (Throws e, s1) \<Rightarrow> (Throws e, streamLastId, s1)
                   | (Returns data, s1) \<Rightarrow>
                       (case applyData X it key data (streamLastId, s1) of
                          (Throws e, cs2) \<Rightarrow> (Throws e, cs2)
                        | (Returns _, cs2) \<Rightarrow> promotion X it cs2)))))"

subsection \<open>\<^verbatim>\<open>run\<close>\<close>

text \<open>
  The loop runs for as long as \<open>closing\<close> is unset, so it is given the inputs of
  finitely many passes: \<open>Pending\<close> says that they were used up with the loop still
  going.
\<close>

datatype settled = Resolved | Rejected error | Pending

fun loop ::
  "externals \<Rightarrow> string \<Rightarrow> iteration list \<Rightarrow> string option \<times> scheduler
     \<Rightarrow> settled \<times> string option \<times> scheduler" where
  "loop X key [] (streamLastId, s) =
     (if closing s = None then (Pending, streamLastId, s) else (Resolved, streamLastId, s))"
| "loop X key (it # its) (streamLastId, s) =
     (if closing s = None then
        (case iteration X it key (streamLastId, s) of
           (Throws e, cs1) \<Rightarrow> (Rejected e, cs1)
         | (Returns _, cs1) \<Rightarrow> loop X key its cs1)
      else (Resolved, streamLastId, s))"

record startup =
  ready :: "unit awaited"
  setname :: "unit awaited"
  now0 :: int
  delaySet0 :: "(number \<times> string option) awaited"

text \<open>The \<^verbatim>\<open>try\<close> block of \<^verbatim>\<open>run\<close> after \<^verbatim>\<open>this.running = true\<close> (lines 130 to 212).\<close>

definition run_body ::
  "externals \<Rightarrow> startup \<Rightarrow> iteration list \<Rightarrow> scheduler \<Rightarrow> settled \<times> scheduler" where
  "run_body X st its s =
     (case await (ready st) (act WaitUntilReady s) of
        (Throws e, s1) \<Rightarrow> (Rejected e, s1)
      | (Returns _, s1) \<Rightarrow>
          (case await (setname st) (act ClientSetname s1) of
             (r, s2) \<Rightarrow>
               (case (case r of
                        Throws err \<Rightarrow>
                          (if \<not> clientCommandMessageReg_test X (message err)
                           then Throws err else Returns ())
                      | Returns _ \<Rightarrow> Returns ()) of
                  Throws e \<Rightarrow> (Rejected e, s2)
                | Returns _ \<Rightarrow>
                    (case updateDelaySet X (delaySet0 st) (Num (of_int (now0 st))) s2 of
                       (r3, s3) \<Rightarrow>
                         (case destructure r3 of
                            Throws e \<Rightarrow> (Rejected e, s3)
                          | Returns (nextTs, streamId) \<Rightarrow>
                              (case loop X (keys_delay X (name s3)) its
                                      (Some (case streamId of None \<Rightarrow> ''0-0'' | Some i \<Rightarrow> i),
                                       if truthy nextTs then s3\<lparr>nextTimestamp := nextTs\<rparr> else s3) of
                                 (res, c, s5) \<Rightarrow> (res, s5)))))))"

text \<open>
  \<^verbatim>\<open>run\<close>: the running flag is cleared when the loop ends and when anything throws;
  a call on a running scheduler is rejected at once.
\<close>

definition run ::
  "externals \<Rightarrow> startup \<Rightarrow> iteration list \<Rightarrow> scheduler \<Rightarrow> settled \<times> scheduler" where
  "run X st its s =
     (if \<not> running s then
        (case run_body X st its (s\<lparr>running := True\<rparr>) of
           (Pending, s1) \<Rightarrow> (Pending, s1)
         | (res, s1) \<Rightarrow> (res, s1\<lparr>running := False\<rparr>))
      else (Rejected (Error ''Queue Scheduler is already running.''), s))"

text \<open>
  The call \<^verbatim>\<open>this.run().catch(...)\<close> of the constructor, from the first \<^verbatim>\<open>await\<close> of
  \<^verbatim>\<open>run\<close> on: a rejection becomes an \<^verbatim>\<open>error\<close> event.
\<close>

definition autorunSettled ::
  "externals \<Rightarrow> startup \<Rightarrow> iteration list \<Rightarrow> scheduler \<Rightarrow> scheduler" where
  "autorunSettled X st its s =
     (case run_body X st its s of
        (Pending, s1) \<Rightarrow> s1
      | (Resolved, s1) \<Rightarrow> s1\<lparr>running := False\<rparr>
      | (Rejected e, s1) \<Rightarrow> emit (ErrorEvent e) (s1\<lparr>running := False\<rparr>))"

subsection \<open>The constructor\<close>

text \<open>
  The options handed to \<^verbatim>\<open>super\<close> are the two defaults overridden by the caller's
  properties; \<^verbatim>\<open>QueueBase\<close> keeps them as \<^verbatim>\<open>this.opts\<close>. With \<open>autorun\<close> the
  constructor calls \<^verbatim>\<open>run\<close>, which sets the running flag before its first
  \<^verbatim>\<open>await\<close>; the state returned is the one at the end of the constructor.
\<close>

definition constructor :: "string \<Rightarrow> QueueSchedulerOptions \<Rightarrow> error + scheduler" where
  "constructor queueName given =
     (let merged = \<lparr>autorun = Missing,
                    maxStalledCount = spread (Num 1) (maxStalledCount given),
                    stalledInterval = spread (Num 30000) (stalledInterval given)\<rparr>;
          this = \<lparr>name = queueName, opts = merged, nextTimestamp = Num MAX_VALUE,
                  isBlocked = False, running = False, closing = None, shutdowns = [],
                  trace = []\<rparr>
      in if \<not> truthy (toNumber (stalledInterval merged))
         then Inl (Error ''Stalled interval cannot be zero or undefined'')
         else if withDefault True (autorun given)
         then Inr (this\<lparr>running := True\<rparr>)
         else Inr this)"

subsection \<open>Notions used to state the properties\<close>

text \<open>The timestamps of a batch that \<^verbatim>\<open>parseInt\<close> does not read as \<^verbatim>\<open>NaN\<close>, in batch order.\<close>

definition numericTimestamps :: "externals \<Rightarrow> streamEntry list \<Rightarrow> number list" where
  "numericTimestamps X evs = filter (\<lambda>t. t \<noteq> NaN) (map (parsedTimestamp X) evs)"

text \<open>
  The order of stream positions \<^verbatim>\<open>ms-seq\<close> in the store: by the first number, then by
  the second.
\<close>

definition streamIdKey :: "string \<Rightarrow> nat \<times> nat" where
  "streamIdKey i =
     (mathInt 10 (digitsPrefix 10 (ascii (takeWhile (\<lambda>c. c \<noteq> CHR ''-'') i))),
      mathInt 10 (digitsPrefix 10 (ascii (drop 1 (dropWhile (\<lambda>c. c \<noteq> CHR ''-'') i)))))"

definition idBefore :: "string \<Rightarrow> string \<Rightarrow> bool" where
  "idBefore a b =
     (fst (streamIdKey a) < fst (streamIdKey b) \<or>
      (fst (streamIdKey a) = fst (streamIdKey b) \<and> snd (streamIdKey a) < snd (streamIdKey b)))"

subsection \<open>Inputs on which the model is evaluated\<close>

text \<open>
  An instance of the parameters: field arrays are read as \<^verbatim>\<open>[key, value, key, value, ...]\<close>
  with a later key overriding an earlier one, a closed connection is the one
  connection error, and the guard throws what it catches.
\<close>

fun pairs :: "jsString list \<Rightarrow> jsString \<Rightarrow> jsString option" where
  "pairs (k # v # rest) x =
     (case pairs rest x of Some w \<Rightarrow> Some w | None \<Rightarrow> if x = k then Some v else None)"
| "pairs _ x = None"

definition sampleExternals :: externals where
  "sampleExternals =
     \<lparr>array2obj = pairs,
      isNotConnectionError = (\<lambda>e. message e \<noteq> ''Connection is closed.''),
      clientCommandMessageReg_test = (\<lambda>m. m = ''ERR unknown command client''),
      DELAY_TIME_5 = 5000,
      checkConnectionError = Some,
      keys_delay = (\<lambda>n. ''bull:'' @ n @ '':delay'')\<rparr>"

definition noOptions :: QueueSchedulerOptions where
  "noOptions = \<lparr>autorun = Missing, maxStalledCount = Missing, stalledInterval = Missing\<rparr>"

definition fresh :: scheduler where
  "fresh =
     \<lparr>name = ''q'',
      opts = \<lparr>autorun = Missing, maxStalledCount = Given (Num 1),
              stalledInterval = Given (Num 30000)\<rparr>,
      nextTimestamp = Num MAX_VALUE, isBlocked = False, running = False, closing = None,
      shutdowns = [], trace = []\<rparr>"

definition batch :: "streamEntry list" where
  "batch =
     [(''5-0'', [ascii ''nextTimestamp'', ascii ''1700'']),
      (''5-1'', [ascii ''delay'', ascii ''20'', ascii ''nextTimestamp'', ascii ''1500'']),
      (''6-0'', [ascii ''nextTimestamp'', ascii ''1600''])]"

definition late :: scheduler where
  "late = fresh\<lparr>nextTimestamp := Num 1650\<rparr>"

definition quietPass :: iteration where
  "quietPass =
     \<lparr>stalledJobs = (0, Returns ([''j1''], [''j2''])), now1 = 1000,
      xread = (0, Returns (Some [(''bull:q:delay'', batch)])), backoff = 0,
      xtrim = (0, Returns ()), now2 = 1200,
      delaySet = (0, Returns (Num 1800, Some ''7-0''))\<rparr>"

definition duePass :: iteration where
  "duePass = quietPass\<lparr>now2 := 1600\<rparr>"

definition startup0 :: startup where
  "startup0 =
     \<lparr>ready = (0, Returns ()), setname = (0, Returns ()), now0 = 900,
      delaySet0 = (0, Returns (Num 1650, Some ''4-0''))\<rparr>"

text \<open>
  A pass in which \<^verbatim>\<open>close()\<close> is called during the blocking read, which then fails
  with the closed connection; a pass whose read fails with another error; a pass with
  an empty read after which the next timestamp has passed; and the same with nothing
  left to promote.
\<close>

definition closedWhileBlocked :: iteration where
  "closedWhileBlocked =
     quietPass\<lparr>xread := (Suc 0, Throws (Error ''Connection is closed.'')), now2 := 2000\<rparr>"

definition brokenPass :: iteration where
  "brokenPass = quietPass\<lparr>xread := (0, Throws (Error ''ERR syntax error''))\<rparr>"

definition overduePass :: iteration where
  "overduePass = quietPass\<lparr>xread := (0, Returns None), now2 := 2000\<rparr>"

definition nothingDuePass :: iteration where
  "nothingDuePass = overduePass\<lparr>delaySet := (0, Returns (Num 0, None))\<rparr>"

section \<open>Properties\<close>

subsection \<open>The number value of an integer\<close>

lemma bitLength_0: "bitLength 0 = 0"
  by (simp add: bitLength.simps)

lemma bitLength_pos: "0 < n \<Longrightarrow> bitLength n = Suc (bitLength (n div 2))"
  by (subst bitLength.simps) simp

lemma bitLength_power: "bitLength (2 ^ k) = Suc k"
  by (induction k) (simp_all add: bitLength_0 bitLength_pos)

lemma bitLength_bounds: "n < 2 ^ bitLength n \<and> (0 < n \<longrightarrow> 2 ^ (bitLength n - 1) \<le> n)"
proof (induction n rule: bitLength.induct)
  case (1 n)
  show ?case
  proof (cases "n = 0")
    case True
    then show ?thesis by (simp add: bitLength_0)
  next
    case False
    with 1 have ih: "n div 2 < 2 ^ bitLength (n div 2)"
      "0 < n div 2 \<longrightarrow> 2 ^ (bitLength (n div 2) - 1) \<le> n div 2"
      by simp_all
    have b: "bitLength n = Suc (bitLength (n div 2))"
      using False by (simp add: bitLength_pos)
    have up: "n < 2 ^ bitLength n"
      using ih(1) by (simp add: b)
    have low: "2 ^ (bitLength n - 1) \<le> n"
    proof (cases "n div 2 = 0")
      case True
      then have "n = 1" using False by linarith
      moreover have "bitLength n = 1" using b True by (simp add: bitLength_0)
      ultimately show ?thesis by simp
    next
      case nz: False
      then have "2 ^ (bitLength (n div 2) - 1) \<le> n div 2"
        using ih(2) by simp
      moreover have "0 < bitLength (n div 2)"
        using nz by (simp add: bitLength_pos)
      ultimately have "2 * 2 ^ (bitLength (n div 2) - 1) \<le> n"
        by linarith
      moreover have "(2::nat) * 2 ^ (bitLength (n div 2) - 1) = 2 ^ bitLength (n div 2)"
        using \<open>0 < bitLength (n div 2)\<close> by (cases "bitLength (n div 2)") simp_all
      ultimately show ?thesis by (simp add: b)
    qed
    from up low show ?thesis by simp
  qed
qed

lemma halfEven_large:
  assumes a: "2 ^ 1024 \<le> a"
  shows "2 ^ 1024 \<le> halfEven (2 ^ (bitLength a - 53)) a"
proof -
  define b where "b = bitLength a"
  define q :: nat where "q = 2 ^ (b - 53)"
  have pos: "0 < a"
    using a by (meson less_le_trans zero_less_numeral zero_less_power)
  have "a < 2 ^ b" and lowb: "2 ^ (b - 1) \<le> a"
    using bitLength_bounds [of a] pos by (simp_all add: b_def)
  then have lt: "(2::nat) ^ 1024 < 2 ^ b"
    using a by linarith
  have "(1::nat) < 2" by simp
  from power_less_imp_less_exp [OF this lt] have b: "1024 < b" .
  have "b - 1 = 52 + (b - 53)"
    using b by simp
  then have "(2::nat) ^ (b - 1) = 2 ^ 52 * 2 ^ (b - 53)"
    by (simp only: power_add)
  then have split: "(2::nat) ^ (b - 1) = 2 ^ 52 * q"
    by (simp only: q_def)
  then have "2 ^ 52 * q \<le> a"
    using lowb by simp
  moreover have "0 < q"
    by (simp add: q_def)
  ultimately have k: "2 ^ 52 \<le> a div q"
    by (simp add: less_eq_div_iff_mult_less_eq)
  have "(2::nat) ^ 1024 \<le> 2 ^ (b - 1)"
    using b by (intro power_increasing) simp_all
  also have "\<dots> = 2 ^ 52 * q"
    by (rule split)
  also have "\<dots> \<le> (a div q) * q"
    using k by simp
  also have "\<dots> \<le> halfEven q a"
    by (simp add: halfEven_def Let_def)
  finally show ?thesis
    by (simp only: q_def b_def)
qed

text \<open>An integer from \<open>2^1024\<close> on has an infinite number value, and so has its negative.\<close>

lemma toDouble_overflow:
  assumes "2 ^ 1024 \<le> n"
  shows "toDouble n = Infinity \<and> toDouble (- n) = NegInfinity"
proof -
  have "2 ^ 1024 \<le> nat n"
    using assms by (simp add: le_nat_iff)
  then have big: "2 ^ 1024 \<le> halfEven (2 ^ (bitLength (nat n) - 53)) (nat n)"
    by (rule halfEven_large)
  have "(2::int) ^ 53 \<le> 2 ^ 1024"
    by (intro power_increasing) simp_all
  moreover have "(0::int) < 2 ^ 53"
    by simp
  ultimately have "\<not> \<bar>n\<bar> < 2 ^ 53" "\<not> n < 0" "\<bar>n\<bar> = n" "0 < n"
    using assms by linarith+
  with big show ?thesis
    unfolding toDouble_def Let_def by simp
qed

text \<open>
  Beyond \<open>2^53\<close> the integer read is rounded, a tie going to the even significand, and
  white space other than ASCII is skipped.
\<close>

lemma toDouble_rounds:
  "toDouble 9007199254740993 = Num 9007199254740992 \<and>
   toDouble 9007199254740995 = Num 9007199254740996"
  by (simp add: toDouble_def halfEven_def bitLength_0 bitLength_pos)

lemma parseInt_examples:
  "parseInt (Some (ascii ''1700'')) = Num 1700 \<and>
   parseInt (Some (ascii ''9007199254740993'')) = Num 9007199254740992 \<and>
   parseInt (Some ([0xA0, 0x2003, 0xFEFF] @ ascii ''-12px'')) = Num (- 12) \<and>
   parseInt (Some (ascii ''0x1F'')) = Num 31 \<and>
   parseInt (Some (ascii ''soon'')) = NaN \<and>
   parseInt None = NaN"
  by (simp add: parseInt_def toDouble_def halfEven_def bitLength_0 bitLength_pos ascii_def
      isWhite_def digitOf_def mathInt_def)

subsection \<open>What the steps leave unchanged\<close>

lemma close_frame [simp]:
  "nextTimestamp (snd (close s)) = nextTimestamp s"
  "isBlocked (snd (close s)) = isBlocked s"
  "running (snd (close s)) = running s"
  "trace (snd (close s)) = trace s"
  "opts (snd (close s)) = opts s"
  "name (snd (close s)) = name s"
  by (simp_all add: close_def Let_def split: option.splits)

lemma closeCalls_frame [simp]:
  "nextTimestamp (closeCalls n s) = nextTimestamp s"
  "isBlocked (closeCalls n s) = isBlocked s"
  "running (closeCalls n s) = running s"
  "trace (closeCalls n s) = trace s"
  "opts (closeCalls n s) = opts s"
  "name (closeCalls n s) = name s"
  by (induction n arbitrary: s; simp)+

lemma act_frame [simp]:
  "nextTimestamp (act a s) = nextTimestamp s"
  "isBlocked (act a s) = isBlocked s"
  "running (act a s) = running s"
  "closing (act a s) = closing s"
  "shutdowns (act a s) = shutdowns s"
  "opts (act a s) = opts s"
  "name (act a s) = name s"
  "trace (act a s) = trace s @ [a]"
  by (simp_all add: act_def)

lemma emit_frame [simp]:
  "nextTimestamp (emit ev s) = nextTimestamp s"
  "isBlocked (emit ev s) = isBlocked s"
  "running (emit ev s) = running s"
  "closing (emit ev s) = closing s"
  "shutdowns (emit ev s) = shutdowns s"
  "opts (emit ev s) = opts s"
  "name (emit ev s) = name s"
  "trace (emit ev s) = trace s @ [Emit ev]"
  by (simp_all add: emit_def)

lemma fold_emit_frame [simp]:
  "nextTimestamp (fold (\<lambda>j. emit (f j)) js s) = nextTimestamp s"
  "isBlocked (fold (\<lambda>j. emit (f j)) js s) = isBlocked s"
  "running (fold (\<lambda>j. emit (f j)) js s) = running s"
  "closing (fold (\<lambda>j. emit (f j)) js s) = closing s"
  "shutdowns (fold (\<lambda>j. emit (f j)) js s) = shutdowns s"
  "opts (fold (\<lambda>j. emit (f j)) js s) = opts s"
  "name (fold (\<lambda>j. emit (f j)) js s) = name s"
  by (induction js arbitrary: s; simp)+

lemma fold_emit_trace:
  "trace (fold (\<lambda>j. emit (f j)) js s) = trace s @ map (\<lambda>j. Emit (f j)) js"
  by (induction js arbitrary: s) simp_all

lemma processEvents_frame [simp]:
  "isBlocked (snd (processEvents X evs (c, s))) = isBlocked s"
  "running (snd (processEvents X evs (c, s))) = running s"
  "closing (snd (processEvents X evs (c, s))) = closing s"
  "shutdowns (snd (processEvents X evs (c, s))) = shutdowns s"
  "opts (snd (processEvents X evs (c, s))) = opts s"
  "name (snd (processEvents X evs (c, s))) = name s"
  "trace (snd (processEvents X evs (c, s))) = trace s"
  by (induction evs arbitrary: c s; simp)+

lemma moveStalledJobsToWait_nextTimestamp [simp]:
  "nextTimestamp (snd (moveStalledJobsToWait script s)) = nextTimestamp s"
  by (simp add: moveStalledJobsToWait_def await_def split: prod.splits outcome.splits)

lemma readDelayedData_nextTimestamp [simp]:
  "nextTimestamp (snd (readDelayedData X xr m key c bt s)) = nextTimestamp s"
  by (simp add: readDelayedData_def await_def split: prod.splits outcome.splits option.splits)

lemmas model_defs =
  iteration_def moveStalledJobsToWait_def await_def readDelayedData_def blockTime_def
  applyData_def promotion_def updateDelaySet_def guarded_def destructure_def act_def emit_def
  parsedTimestamp_def parseInt_def toDouble_def ascii_def isWhite_def digitOf_def mathInt_def
  close_def Let_def

subsection \<open>Properties kept by a pass, by the loop and by \<^verbatim>\<open>run\<close>\<close>

lemma iteration_preserves:
  assumes sweep: "\<And>script s. P s \<Longrightarrow> P (snd (moveStalledJobsToWait script s))"
    and read: "\<And>xr m c bt s. P s \<Longrightarrow> P (snd (readDelayedData X xr m key c bt s))"
    and appl: "\<And>data c s. P s \<Longrightarrow> P (snd (snd (applyData X it key data (c, s))))"
    and promo: "\<And>c s. P s \<Longrightarrow> P (snd (snd (promotion X it (c, s))))"
    and start: "P s"
  shows "P (snd (snd (iteration X it key (c, s))))"
proof -
  obtain r0 s0 where m: "moveStalledJobsToWait (stalledJobs it) s = (r0, s0)"
    by force
  have p0: "P s0"
    by (metis m sweep start snd_conv)
  show ?thesis
  proof (cases "guarded X r0")
    case (Throws e)
    with m p0 show ?thesis by (simp add: iteration_def)
  next
    case (Returns u)
    obtain r1 s1 where rd:
      "readDelayedData X (xread it) (backoff it) key c
         (blockTime (toNumber (stalledInterval (opts s0))) (nextTimestamp s0) (now1 it)) s0 = (r1, s1)"
      by force
    have p1: "P s1"
      by (metis rd p0 read snd_conv)
    show ?thesis
    proof (cases r1)
      case (Throws e)
      with m Returns rd p1 show ?thesis by (simp add: iteration_def)
    next
      case Returns': (Returns data)
      obtain r2 c2 s2 where ap: "applyData X it key data (c, s1) = (r2, c2, s2)"
        by (metis prod_cases3)
      have p2: "P s2"
        by (metis appl [OF p1] ap snd_conv)
      show ?thesis
      proof (cases r2)
        case (Throws e)
        with m Returns rd Returns' ap p2 show ?thesis by (simp add: iteration_def)
      next
        case Returns'': (Returns u2)
        have "iteration X it key (c, s) = promotion X it (c2, s2)"
          using m Returns rd Returns' ap Returns'' by (simp add: iteration_def)
        with promo [OF p2, of c2] show ?thesis by simp
      qed
    qed
  qed
qed

lemma loop_preserves:
  assumes step: "\<And>it c s. P s \<Longrightarrow> P (snd (snd (iteration X it key (c, s))))"
  shows "P s \<Longrightarrow> P (snd (snd (loop X key its (c, s))))"
proof (induction its arbitrary: c s)
  case Nil
  then show ?case by simp
next
  case (Cons it its)
  obtain r c1 s1 where i: "iteration X it key (c, s) = (r, c1, s1)"
    by (metis prod_cases3)
  have p1: "P s1"
    by (metis step [OF Cons.prems] i snd_conv)
  show ?case
  proof (cases "closing s = None")
    case False
    with Cons.prems show ?thesis by auto
  next
    case True
    show ?thesis
    proof (cases r)
      case (Throws e)
      with True i p1 show ?thesis by simp
    next
      case (Returns u)
      with True i Cons.IH [OF p1, of c1] show ?thesis by simp
    qed
  qed
qed

lemma run_body_preserves:
  assumes act: "\<And>a s. P s \<Longrightarrow> P (act a s)"
    and cl: "\<And>n s. P s \<Longrightarrow> P (closeCalls n s)"
    and upd: "\<And>script ts s. P s \<Longrightarrow> P (snd (updateDelaySet X script ts s))"
    and adopt: "\<And>n s. P s \<Longrightarrow> truthy n \<Longrightarrow> P (s\<lparr>nextTimestamp := n\<rparr>)"
    and lp: "\<And>key c s. P s \<Longrightarrow> P (snd (snd (loop X key its (c, s))))"
    and start: "P s"
  shows "P (snd (run_body X st its s))"
proof -
  define s1 where "s1 = closeCalls (fst (ready st)) (act WaitUntilReady s)"
  define s2 where "s2 = closeCalls (fst (setname st)) (act ClientSetname s1)"
  have p1: "P s1" unfolding s1_def by (intro cl act start)
  have p2: "P s2" unfolding s2_def by (intro cl act p1)
  obtain r3 s3 where u: "updateDelaySet X (delaySet0 st) (Num (of_int (now0 st))) s2 = (r3, s3)"
    by force
  have p3: "P s3"
    by (metis upd [OF p2] u snd_conv)
  have p4: "P (if truthy n then s3\<lparr>nextTimestamp := n\<rparr> else s3)" for n
    using p3 adopt by simp
  have p5: "P (snd (snd (loop X key its (c, if truthy n then s3\<lparr>nextTimestamp := n\<rparr> else s3))))"
    for key c n
    by (rule lp [OF p4])
  show ?thesis
  proof (cases "snd (ready st)")
    case (Throws e)
    then show ?thesis using p1 by (simp add: run_body_def await_def s1_def)
  next
    case ready: (Returns u1)
    show ?thesis
    proof (cases "case snd (setname st) of
                    Throws err \<Rightarrow>
                      (if \<not> clientCommandMessageReg_test X (message err)
                       then Throws err else Returns ())
                  | Returns _ \<Rightarrow> Returns ()")
      case (Throws e)
      then show ?thesis using p2 ready
        by (simp add: run_body_def await_def s1_def s2_def)
    next
      case named: (Returns u2)
      show ?thesis
      proof (cases "destructure r3")
        case (Throws e)
        then show ?thesis using p3 ready named u
          by (simp add: run_body_def await_def s1_def [symmetric] s2_def [symmetric])
      next
        case (Returns v)
        obtain nextTs streamId where v: "v = (nextTs, streamId)"
          by force
        obtain res c5 s5 where l:
          "loop X (keys_delay X (name s3)) its
             (Some (case streamId of None \<Rightarrow> ''0-0'' | Some i \<Rightarrow> i),
              if truthy nextTs then s3\<lparr>nextTimestamp := nextTs\<rparr> else s3) = (res, c5, s5)"
          by (metis prod_cases3)
        have "P s5"
          by (metis p5 l snd_conv)
        then show ?thesis using ready named u Returns v l
          by (simp add: run_body_def await_def s1_def [symmetric] s2_def [symmetric])
      qed
    qed
  qed
qed

lemma run_preserves:
  assumes body: "\<And>s. P s \<Longrightarrow> P (snd (run_body X st its s))"
    and flag: "\<And>b s. P s \<Longrightarrow> P (s\<lparr>running := b\<rparr>)"
    and start: "P s"
  shows "P (snd (run X st its s))"
proof -
  have "P (snd (run_body X st its (s\<lparr>running := True\<rparr>)))"
    by (intro body flag start)
  then show ?thesis
    using start flag
    by (auto simp add: run_def split: prod.splits settled.splits)
qed

subsection \<open>The order of numbers\<close>

lemma js_le_number: "js_le a b \<Longrightarrow> a \<noteq> NaN"
  by (cases a) simp_all

lemma js_less_number: "js_less a b \<Longrightarrow> a \<noteq> NaN"
  by (cases a) simp_all

lemma truthy_number: "truthy a \<Longrightarrow> a \<noteq> NaN"
  by (cases a) simp_all

lemma js_le_refl: "a \<noteq> NaN \<Longrightarrow> js_le a a"
  by (cases a) simp_all

lemma js_le_trans: "js_le a b \<Longrightarrow> js_le b c \<Longrightarrow> js_le a c"
  by (cases a; cases b; cases c) simp_all

lemma js_less_le: "js_less a b \<Longrightarrow> js_le a b"
  by (cases a; cases b) simp_all

lemma js_not_less: "a \<noteq> NaN \<Longrightarrow> b \<noteq> NaN \<Longrightarrow> \<not> js_less a b \<Longrightarrow> js_le b a"
  by (cases a; cases b) simp_all

subsection \<open>The log batch and the next timestamp\<close>

lemma processEvents_minimum:
  assumes "nextTimestamp s \<noteq> NaN"
  shows "nextTimestamp (snd (processEvents X evs (c, s))) \<in>
           set (nextTimestamp s # numericTimestamps X evs) \<and>
         (\<forall>t \<in> set (nextTimestamp s # numericTimestamps X evs).
            js_le (nextTimestamp (snd (processEvents X evs (c, s)))) t)"
  using assms
proof (induction evs arbitrary: c s)
  case Nil
  then show ?case by (simp add: numericTimestamps_def js_le_refl)
next
  case (Cons ev evs)
  let ?q = "parsedTimestamp X ev"
  let ?m = "nextTimestamp s"
  show ?case
  proof (cases "js_less ?q ?m")
    case True
    let ?s1 = "s\<lparr>nextTimestamp := ?q\<rparr>"
    let ?r = "nextTimestamp (snd (processEvents X evs (Some (fst ev), ?s1)))"
    have q: "?q \<noteq> NaN"
      using True by (rule js_less_number)
    then have "nextTimestamp ?s1 \<noteq> NaN" by simp
    from Cons.IH [OF this, of "Some (fst ev)"]
    have mem: "?r \<in> set (?q # numericTimestamps X evs)"
      and low: "\<forall>t \<in> set (?q # numericTimestamps X evs). js_le ?r t"
      by simp_all
    have "js_le ?r ?q" using low by simp
    then have "js_le ?r ?m"
      using js_less_le [OF True] by (rule js_le_trans)
    with mem low q True show ?thesis
      by (simp add: numericTimestamps_def)
  next
    case False
    let ?r = "nextTimestamp (snd (processEvents X evs (Some (fst ev), s)))"
    from Cons.IH [OF Cons.prems, of "Some (fst ev)"]
    have mem: "?r \<in> set (?m # numericTimestamps X evs)"
      and low: "\<forall>t \<in> set (?m # numericTimestamps X evs). js_le ?r t"
      by simp_all
    have rm: "js_le ?r ?m" using low by simp
    have "js_le ?r ?q" if "?q \<noteq> NaN"
      using rm js_not_less [OF that Cons.prems False] by (rule js_le_trans)
    with mem low False show ?thesis
      by (auto simp add: numericTimestamps_def)
  qed
qed

lemma processEvents_le:
  assumes "nextTimestamp s \<noteq> NaN"
  shows "js_le (nextTimestamp (snd (processEvents X evs (c, s)))) (nextTimestamp s)"
  using processEvents_minimum [OF assms, of X evs c] by simp

lemma numericTimestamps_all:
  "map (parsedTimestamp X) evs = map Num ts \<Longrightarrow> numericTimestamps X evs = map Num ts"
  by (simp add: numericTimestamps_def)

lemma processEvents_Min:
  assumes "nextTimestamp s = Num p" and "map (parsedTimestamp X) evs = map Num ts"
  shows "nextTimestamp (snd (processEvents X evs (c, s))) = Num (Min (set (p # ts)))"
proof -
  have n: "nextTimestamp s \<noteq> NaN"
    using assms(1) by simp
  let ?r = "nextTimestamp (snd (processEvents X evs (c, s)))"
  from processEvents_minimum [OF n, of X evs c]
  have mem: "?r \<in> Num ` set (p # ts)" and low: "\<forall>t \<in> set (p # ts). js_le ?r (Num t)"
    by (simp_all add: assms(1) numericTimestamps_all [OF assms(2)])
  from mem obtain x where x: "?r = Num x" "x \<in> set (p # ts)"
    by blast
  have "Min (set (p # ts)) = x"
  proof (rule Min_eqI)
    show "finite (set (p # ts))" by simp
    show "x \<le> y" if "y \<in> set (p # ts)" for y
      using low that x(1) by auto
    show "x \<in> set (p # ts)" by (rule x(2))
  qed
  with x(1) show ?thesis by simp
qed

lemma applyData_le:
  assumes "nextTimestamp s \<noteq> NaN"
  shows "js_le (nextTimestamp (snd (snd (applyData X it key data (c, s))))) (nextTimestamp s)"
proof -
  have "js_le (nextTimestamp (snd (processEvents X evs (c, s)))) (nextTimestamp s)" for evs
    by (rule processEvents_le [OF assms])
  moreover have "js_le (nextTimestamp s) (nextTimestamp s)"
    using assms by (rule js_le_refl)
  ultimately show ?thesis
    by (auto simp add: applyData_def await_def
        split: prod.splits outcome.splits option.splits list.splits)
      (metis snd_conv)+
qed

lemma promotion_precise:
  "nextTimestamp (snd (snd (promotion X it (c, s)))) = nextTimestamp s \<or>
   js_le (js_minus (nextTimestamp s) (Num (of_int (now2 it)))) (Num 0) \<and>
   (closing s = None \<and> truthy (nextTimestamp (snd (snd (promotion X it (c, s))))) \<and>
      (\<exists>i. snd (delaySet it) = Returns (nextTimestamp (snd (snd (promotion X it (c, s)))), i)) \<and>
      trace (snd (snd (promotion X it (c, s)))) =
        trace s @ [ScriptUpdateDelaySet (Num (of_int (now2 it)))] \<or>
    closing s = None \<and> nextTimestamp (snd (snd (promotion X it (c, s)))) = Num MAX_VALUE \<and>
      (\<exists>ts i. snd (delaySet it) = Returns (ts, i) \<and> \<not> truthy ts) \<and>
      trace (snd (snd (promotion X it (c, s)))) =
        trace s @ [ScriptUpdateDelaySet (Num (of_int (now2 it)))] \<or>
    closing s \<noteq> None \<and> nextTimestamp (snd (snd (promotion X it (c, s)))) = Num MAX_VALUE \<and>
      trace (snd (snd (promotion X it (c, s)))) = trace s)"
  by (auto simp add: promotion_def updateDelaySet_def await_def guarded_def destructure_def Let_def
      split: prod.splits outcome.splits option.splits if_splits)

lemma iteration_raise:
  assumes n: "nextTimestamp s \<noteq> NaN"
  shows "\<exists>c2 s2. js_le (nextTimestamp s2) (nextTimestamp s) \<and>
     (nextTimestamp (snd (snd (iteration X it key (c, s)))) = nextTimestamp s2 \<or>
      iteration X it key (c, s) = promotion X it (c2, s2) \<and>
      js_le (js_minus (nextTimestamp s2) (Num (of_int (now2 it)))) (Num 0) \<and>
      (closing s2 = None \<and> truthy (nextTimestamp (snd (snd (iteration X it key (c, s))))) \<and>
         (\<exists>i. snd (delaySet it) =
                Returns (nextTimestamp (snd (snd (iteration X it key (c, s)))), i)) \<and>
         trace (snd (snd (iteration X it key (c, s)))) =
           trace s2 @ [ScriptUpdateDelaySet (Num (of_int (now2 it)))] \<or>
       closing s2 = None \<and>
         nextTimestamp (snd (snd (iteration X it key (c, s)))) = Num MAX_VALUE \<and>
         (\<exists>ts i. snd (delaySet it) = Returns (ts, i) \<and> \<not> truthy ts) \<and>
         trace (snd (snd (iteration X it key (c, s)))) =
           trace s2 @ [ScriptUpdateDelaySet (Num (of_int (now2 it)))] \<or>
       closing s2 \<noteq> None \<and>
         nextTimestamp (snd (snd (iteration X it key (c, s)))) = Num MAX_VALUE \<and>
         trace (snd (snd (iteration X it key (c, s)))) = trace s2))"
proof -
  have stop: ?thesis
    if "js_le (nextTimestamp (snd (snd (iteration X it key (c, s))))) (nextTimestamp s)"
    using that by blast
  have same: "js_le (nextTimestamp s) (nextTimestamp s)"
    using n by (rule js_le_refl)
  obtain r0 s0 where m: "moveStalledJobsToWait (stalledJobs it) s = (r0, s0)"
    by force
  have n0: "nextTimestamp s0 = nextTimestamp s"
    by (metis m moveStalledJobsToWait_nextTimestamp snd_conv)
  show ?thesis
  proof (cases "guarded X r0")
    case (Throws e)
    with m n0 same show ?thesis by (intro stop) (simp add: iteration_def)
  next
    case (Returns u)
    obtain r1 s1 where rd:
      "readDelayedData X (xread it) (backoff it) key c
         (blockTime (toNumber (stalledInterval (opts s0))) (nextTimestamp s0) (now1 it)) s0 = (r1, s1)"
      by force
    have n1: "nextTimestamp s1 = nextTimestamp s"
      by (metis rd n0 readDelayedData_nextTimestamp snd_conv)
    show ?thesis
    proof (cases r1)
      case (Throws e)
      with m Returns rd n1 same show ?thesis by (intro stop) (simp add: iteration_def)
    next
      case Returns': (Returns data)
      obtain r2 c2 s2 where ap: "applyData X it key data (c, s1) = (r2, c2, s2)"
        by (metis prod_cases3)
      have "nextTimestamp s1 \<noteq> NaN"
        using n n1 by simp
      from applyData_le [OF this, of X it key data c]
      have le2: "js_le (nextTimestamp s2) (nextTimestamp s)"
        by (simp add: ap n1)
      show ?thesis
      proof (cases r2)
        case (Throws e)
        with m Returns rd Returns' ap le2 show ?thesis
          by (intro stop) (simp add: iteration_def)
      next
        case Returns'': (Returns u2)
        have it: "iteration X it key (c, s) = promotion X it (c2, s2)"
          using m Returns rd Returns' ap Returns'' by (simp add: iteration_def)
        from promotion_precise [of X it c2 s2] le2 show ?thesis
          unfolding it by blast
      qed
    qed
  qed
qed




subsection \<open>The stream cursor\<close>

lemma processEvents_cursor:
  "evs \<noteq> [] \<Longrightarrow> fst (processEvents X evs (c, s)) = Some (fst (last evs))"
  by (induction evs arbitrary: c s) auto

lemma increasing_distinct:
  "sorted_wrt before xs \<Longrightarrow> \<forall>i. \<not> before i i \<Longrightarrow> distinct xs"
  by (induction xs) auto

lemma last_not_earlier:
  assumes "distinct xs" "xs \<noteq> []"
  shows "last xs \<notin> set (butlast xs)"
proof -
  have "distinct (butlast xs @ [last xs])"
    using assms by simp
  then show ?thesis by simp
qed

text \<open>
  Claim C2. For a non-empty batch of log entries whose positions are strictly
  increasing, the stream cursor after the loop over the entries is the position of the
  last entry, and not the position of an earlier one.
\<close>

theorem cursor_ends_at_last_entry:
  assumes "events \<noteq> []" and "sorted_wrt before (map fst events)" and "\<forall>i. \<not> before i i"
  shows "fst (processEvents X events (c, s)) = Some (fst (last events)) \<and>
         (\<forall>ev \<in> set (butlast events). fst (processEvents X events (c, s)) \<noteq> Some (fst ev))"
proof -
  have d: "distinct (map fst events)"
    using assms(2,3) by (rule increasing_distinct)
  have "last (map fst events) \<notin> set (butlast (map fst events))"
    using d assms(1) by (intro last_not_earlier) simp_all
  then have "fst (last events) \<notin> fst ` set (butlast events)"
    using assms(1) by (simp add: last_map map_butlast [symmetric])
  with processEvents_cursor [OF assms(1), of X c s] show ?thesis
    by auto
qed

theorem cursor_ends_at_last_entry_witness:
  "batch \<noteq> [] \<and> sorted_wrt idBefore (map fst batch) \<and>
   fst (processEvents sampleExternals batch (Some ''0-0'', late)) = Some ''6-0'' \<and>
   fst (processEvents sampleExternals batch (Some ''0-0'', late)) \<noteq> Some ''5-0'' \<and>
   fst (processEvents sampleExternals batch (Some ''0-0'', late)) \<noteq> Some ''5-1''"
proof -
  have h1: "batch \<noteq> []"
    by (simp add: batch_def)
  have h2: "sorted_wrt idBefore (map fst batch)"
    by (simp add: batch_def idBefore_def streamIdKey_def mathInt_def digitOf_def ascii_def)
  have h3: "\<forall>i. \<not> idBefore i i"
    by (simp add: idBefore_def)
  from cursor_ends_at_last_entry [OF h1 h2 h3, of sampleExternals "Some ''0-0''" late] h1 h2
  show ?thesis
    by (simp add: batch_def)
qed

subsection \<open>The next timestamp is never \<^verbatim>\<open>NaN\<close>, the options stay as constructed\<close>

lemma promotion_number:
  "nextTimestamp s \<noteq> NaN \<Longrightarrow> nextTimestamp (snd (snd (promotion X it (c, s)))) \<noteq> NaN"
  by (auto simp add: promotion_def updateDelaySet_def await_def guarded_def destructure_def Let_def
      split: prod.splits outcome.splits option.splits if_splits)

lemma applyData_number:
  assumes "nextTimestamp s \<noteq> NaN"
  shows "nextTimestamp (snd (snd (applyData X it key data (c, s)))) \<noteq> NaN"
  using applyData_le [OF assms] by (rule js_le_number)

lemma iteration_number:
  "nextTimestamp s \<noteq> NaN \<Longrightarrow> nextTimestamp (snd (snd (iteration X it key (c, s)))) \<noteq> NaN"
  by (rule iteration_preserves [where P = "\<lambda>s. nextTimestamp s \<noteq> NaN"])
    (simp_all add: applyData_number promotion_number)

lemma loop_number:
  "nextTimestamp s \<noteq> NaN \<Longrightarrow> nextTimestamp (snd (snd (loop X key its (c, s)))) \<noteq> NaN"
  by (rule loop_preserves [where P = "\<lambda>s. nextTimestamp s \<noteq> NaN"]) (rule iteration_number)

lemma updateDelaySet_nextTimestamp [simp]:
  "nextTimestamp (snd (updateDelaySet X script ts s)) = nextTimestamp s"
  by (simp add: updateDelaySet_def await_def split: prod.splits)


lemma run_number:
  assumes "nextTimestamp s \<noteq> NaN"
  shows "nextTimestamp (snd (run X st its s)) \<noteq> NaN"
proof (rule run_preserves [where P = "\<lambda>s. nextTimestamp s \<noteq> NaN"])
  show "nextTimestamp (snd (run_body X st its s)) \<noteq> NaN" if "nextTimestamp s \<noteq> NaN" for s
    using that
    by (rule run_body_preserves [where P = "\<lambda>s. nextTimestamp s \<noteq> NaN", rotated -1])
      (simp_all add: truthy_number loop_number)
qed (simp_all add: assms)


lemma moveStalledJobsToWait_opts [simp]:
  "opts (snd (moveStalledJobsToWait script s)) = opts s"
  by (simp add: moveStalledJobsToWait_def await_def split: prod.splits outcome.splits)

lemma readDelayedData_opts [simp]:
  "opts (snd (readDelayedData X xr m key c bt s)) = opts s"
  by (simp add: readDelayedData_def await_def split: prod.splits outcome.splits option.splits)

lemma updateDelaySet_opts [simp]:
  "opts (snd (updateDelaySet X script ts s)) = opts s"
  by (simp add: updateDelaySet_def await_def split: prod.splits)

lemma applyData_opts [simp]:
  "opts (snd (snd (applyData X it key data (c, s)))) = opts s"
  by (auto simp add: applyData_def await_def
      split: prod.splits outcome.splits option.splits list.splits)
    (metis processEvents_frame(5) snd_conv)+

lemma promotion_opts [simp]:
  "opts (snd (snd (promotion X it (c, s)))) = opts s"
  by (auto simp add: promotion_def Let_def split: prod.splits outcome.splits option.splits)
    (metis updateDelaySet_opts snd_conv)+

lemma run_opts: "opts (snd (run X st its s)) = opts s"
proof -
  define os where "os = opts s"
  have it: "opts (snd (snd (iteration X it key (c, s)))) = os" if "opts s = os" for it key c s
    using that by (rule iteration_preserves [where P = "\<lambda>s. opts s = os", rotated -1]) simp_all
  have lp: "opts (snd (snd (loop X key its (c, s)))) = os" if "opts s = os" for key c s
    using that by (rule loop_preserves [where P = "\<lambda>s. opts s = os", rotated -1]) (rule it)
  have body: "opts (snd (run_body X st its s)) = os" if "opts s = os" for s
    using that
    by (rule run_body_preserves [where P = "\<lambda>s. opts s = os", rotated -1]) (simp_all add: lp)
  have "opts (snd (run X st its s)) = os"
    by (rule run_preserves [where P = "\<lambda>s. opts s = os"]) (simp_all add: body os_def)
  then show ?thesis by (simp add: os_def)
qed

lemma constructor_state:
  assumes "constructor queueName given = Inr s"
  shows "nextTimestamp s = Num MAX_VALUE \<and> \<not> isBlocked s \<and> closing s = None \<and>
         (\<exists>n. stalledInterval (opts s) = Given n \<and> truthy n)"
proof -
  have "\<exists>n. p = Given n \<and> truthy n" if "truthy (toNumber p)" for p
    using that by (cases p) simp_all
  then show ?thesis using assms
    by (auto simp add: constructor_def Let_def split: if_splits)
qed

subsection \<open>The block time\<close>

lemma blockTime_Num:
  "blockTime (Num si) (Num t) now = Num (of_int (round (min si (max (t - of_int now) 0))))"
  by (simp add: blockTime_def round_def)

text \<open>
  Claim C3. For every \<open>nextTimestamp\<close>, however far in the past or the future, and
  every current time, the block time is
  \<open>round (min stalledInterval (max (nextTimestamp - now) 0))\<close>, and for a stalled interval
  that is a positive integer it lies between 0 and the stalled interval; for an
  infinite \<open>nextTimestamp\<close> it is the stalled interval or 0. (\<open>nextTimestamp\<close> is never
  \<^verbatim>\<open>NaN\<close>: the constructor sets it to \<^verbatim>\<open>Number.MAX_VALUE\<close> and \<^verbatim>\<open>run\<close> never stores
  \<^verbatim>\<open>NaN\<close>, see \<open>constructor_state\<close> and \<open>run_number\<close>.)
\<close>

theorem blockTime_within_interval:
  assumes "si \<in> \<int>" and "0 < si"
  shows "blockTime (Num si) (Num t) now =
           Num (of_int (round (min si (max (t - of_int now) 0)))) \<and>
         js_le (Num 0) (blockTime (Num si) (Num t) now) \<and>
         js_le (blockTime (Num si) (Num t) now) (Num si) \<and>
         blockTime (Num si) Infinity now = Num si \<and>
         blockTime (Num si) NegInfinity now = Num 0"
proof -
  define m where "m = min si (max (t - of_int now) 0)"
  have m: "0 \<le> m" "m \<le> si"
    using assms(2) by (simp_all add: m_def)
  from assms(1) obtain k where k: "si = of_int k"
    by (auto elim: Ints_cases)
  have "round (0 :: real) \<le> round m"
    using m(1) by (rule round_mono)
  then have lo: "0 \<le> round m" by simp
  have "round m \<le> round si"
    using m(2) by (rule round_mono)
  then have hi: "round m \<le> k" by (simp add: k)
  have "(of_int (round m) :: real) \<le> of_int k"
    using hi by simp
  moreover have "blockTime (Num si) Infinity now = Num si"
    by (simp add: blockTime_def k)
  moreover have "blockTime (Num si) NegInfinity now = Num 0"
    using assms(2) by (simp add: blockTime_def)
  ultimately show ?thesis
    using lo unfolding blockTime_Num m_def k by simp
qed

theorem blockTime_within_interval_witness:
  "blockTime (Num 30000) (Num 1650) 1000 = Num 650 \<and>
   blockTime (Num 30000) (Num 1650) 5000 = Num 0 \<and>
   blockTime (Num 30000) (Num MAX_VALUE) 5000 = Num 30000 \<and>
   blockTime (Num 30000) Infinity 5000 = Num 30000 \<and>
   blockTime (Num 30000) NegInfinity 5000 = Num 0"
proof -
  have h1: "(30000 :: real) \<in> \<int>" by simp
  have h2: "(0 :: real) < 30000" by simp
  note b = blockTime_within_interval [OF h1 h2]
  from b [of 1650 1000] b [of 1650 5000] b [of MAX_VALUE 5000]
  show ?thesis
    by (simp add: MAX_VALUE_def)
qed

text \<open>
  The bound rests on the interval being a positive integer, and on the timestamp not
  being \<^verbatim>\<open>NaN\<close>.
\<close>

lemma blockTime_fractional_interval: "blockTime (Num (3 / 2)) (Num 10) 0 = Num 2"
  by (simp add: blockTime_def)

lemma blockTime_negative_interval: "blockTime (Num (- 5)) (Num 10) 0 = Num (- 5)"
  by (simp add: blockTime_def)

lemma blockTime_NaN: "blockTime (Num 30000) NaN 0 = NaN"
  by (simp add: blockTime_def)

subsection \<open>The promotion of due jobs\<close>

lemma updateDelaySet_trace:
  "trace (snd (updateDelaySet X script ts s)) =
     trace s @ (if closing s = None then [ScriptUpdateDelaySet ts] else [])"
  by (simp add: updateDelaySet_def await_def split: prod.splits)

text \<open>
  Claim C4, amended. In a pass the promotion script is called again exactly when
  \<open>nextTimestamp - now \<le> 0\<close> and no shutdown is pending. When it returns a timestamp
  that is not zero, \<open>nextTimestamp\<close> and the stream cursor become the returned pair;
  when it returns zero or none, \<open>nextTimestamp\<close> becomes \<^verbatim>\<open>Number.MAX_VALUE\<close> and the
  cursor stays, and the block time of the next pass is the stalled interval (a positive
  integer). When a shutdown is pending the script is not called: \<^verbatim>\<open>updateDelaySet\<close>
  answers \<^verbatim>\<open>[0, '0']\<close> itself and \<open>nextTimestamp\<close> becomes \<^verbatim>\<open>Number.MAX_VALUE\<close>.
\<close>

theorem promotion_step:
  "trace (snd (snd (promotion X it (c, s)))) =
     trace s @
       (if js_le (js_minus (nextTimestamp s) (Num (of_int (now2 it)))) (Num 0) \<and> closing s = None
        then [ScriptUpdateDelaySet (Num (of_int (now2 it)))] else []) \<and>
   (\<not> js_le (js_minus (nextTimestamp s) (Num (of_int (now2 it)))) (Num 0) \<longrightarrow>
      promotion X it (c, s) = (Returns (), c, s)) \<and>
   (js_le (js_minus (nextTimestamp s) (Num (of_int (now2 it)))) (Num 0) \<and> closing s \<noteq> None \<longrightarrow>
      promotion X it (c, s) = (Returns (), c, s\<lparr>nextTimestamp := Num MAX_VALUE\<rparr>)) \<and>
   (js_le (js_minus (nextTimestamp s) (Num (of_int (now2 it)))) (Num 0) \<and> closing s = None \<and>
    snd (delaySet it) = Returns (ts, i) \<and> truthy ts \<longrightarrow>
      fst (promotion X it (c, s)) = Returns () \<and>
      fst (snd (promotion X it (c, s))) = i \<and>
      nextTimestamp (snd (snd (promotion X it (c, s)))) = ts) \<and>
   (js_le (js_minus (nextTimestamp s) (Num (of_int (now2 it)))) (Num 0) \<and> closing s = None \<and>
    snd (delaySet it) = Returns (ts, i) \<and> \<not> truthy ts \<longrightarrow>
      fst (promotion X it (c, s)) = Returns () \<and>
      fst (snd (promotion X it (c, s))) = c \<and>
      nextTimestamp (snd (snd (promotion X it (c, s)))) = Num MAX_VALUE) \<and>
   (nextTimestamp (snd (snd (promotion X it (c, s)))) = Num MAX_VALUE \<and>
    stalledInterval (opts s) = Given (Num si) \<and> si \<in> \<int> \<and> 0 < si \<and>
    of_int now' + si \<le> MAX_VALUE \<longrightarrow>
      blockTime (toNumber (stalledInterval (opts (snd (snd (promotion X it (c, s)))))))
        (nextTimestamp (snd (snd (promotion X it (c, s))))) now' = Num si)"
proof -
  let ?due = "js_le (js_minus (nextTimestamp s) (Num (of_int (now2 it)))) (Num 0)"
  have tr: "trace (snd (snd (promotion X it (c, s)))) =
     trace s @ (if ?due \<and> closing s = None then [ScriptUpdateDelaySet (Num (of_int (now2 it)))] else [])"
    by (auto simp add: promotion_def Let_def updateDelaySet_def await_def
        split: prod.splits outcome.splits option.splits)
  have notdue: "\<not> ?due \<longrightarrow> promotion X it (c, s) = (Returns (), c, s)"
    by (simp add: promotion_def Let_def)
  have gated: "?due \<and> closing s \<noteq> None \<longrightarrow>
      promotion X it (c, s) = (Returns (), c, s\<lparr>nextTimestamp := Num MAX_VALUE\<rparr>)"
    by (auto simp add: promotion_def Let_def updateDelaySet_def destructure_def)
  have adopt: "?due \<and> closing s = None \<and> snd (delaySet it) = Returns (ts, i) \<and> truthy ts \<longrightarrow>
      fst (promotion X it (c, s)) = Returns () \<and>
      fst (snd (promotion X it (c, s))) = i \<and>
      nextTimestamp (snd (snd (promotion X it (c, s)))) = ts"
    by (simp add: promotion_def Let_def updateDelaySet_def await_def guarded_def destructure_def)
  have reset: "?due \<and> closing s = None \<and> snd (delaySet it) = Returns (ts, i) \<and> \<not> truthy ts \<longrightarrow>
      fst (promotion X it (c, s)) = Returns () \<and>
      fst (snd (promotion X it (c, s))) = c \<and>
      nextTimestamp (snd (snd (promotion X it (c, s)))) = Num MAX_VALUE"
    by (simp add: promotion_def Let_def updateDelaySet_def await_def guarded_def destructure_def)
  have full: "blockTime (Num si) (Num MAX_VALUE) now' = Num si"
    if "si \<in> \<int>" "0 < si" "of_int now' + si \<le> MAX_VALUE"
  proof -
    from that(1) obtain k where k: "si = of_int k"
      by (auto elim: Ints_cases)
    have "min si (max (MAX_VALUE - of_int now') 0) = si"
      using that(2,3) by simp
    then show ?thesis
      by (simp add: blockTime_def k)
  qed
  have "blockTime (toNumber (stalledInterval (opts (snd (snd (promotion X it (c, s)))))))
        (nextTimestamp (snd (snd (promotion X it (c, s))))) now' = Num si"
    if "nextTimestamp (snd (snd (promotion X it (c, s)))) = Num MAX_VALUE"
      "stalledInterval (opts s) = Given (Num si)" "si \<in> \<int>" "0 < si"
      "of_int now' + si \<le> MAX_VALUE"
    using that full by simp
  with tr notdue gated adopt reset show ?thesis
    by blast
qed


theorem promotion_step_witness:
  "promotion sampleExternals quietPass (Some ''4-0'', late) = (Returns (), Some ''4-0'', late) \<and>
   promotion sampleExternals overduePass (Some ''4-0'', late\<lparr>closing := Some (Promise 0)\<rparr>) =
     (Returns (), Some ''4-0'', late\<lparr>closing := Some (Promise 0), nextTimestamp := Num MAX_VALUE\<rparr>) \<and>
   trace (snd (snd (promotion sampleExternals overduePass (Some ''4-0'', late)))) =
     [ScriptUpdateDelaySet (Num 2000)] \<and>
   fst (snd (promotion sampleExternals overduePass (Some ''4-0'', late))) = Some ''7-0'' \<and>
   nextTimestamp (snd (snd (promotion sampleExternals overduePass (Some ''4-0'', late)))) = Num 1800 \<and>
   fst (snd (promotion sampleExternals nothingDuePass (Some ''4-0'', late))) = Some ''4-0'' \<and>
   nextTimestamp (snd (snd (promotion sampleExternals nothingDuePass (Some ''4-0'', late)))) =
     Num MAX_VALUE \<and>
   blockTime (toNumber (stalledInterval (opts (snd (snd (promotion sampleExternals nothingDuePass
       (Some ''4-0'', late)))))))
     (nextTimestamp (snd (snd (promotion sampleExternals nothingDuePass (Some ''4-0'', late)))))
     2001 = Num 30000"
proof -
  have late: "nextTimestamp late = Num 1650" "closing late = None" "trace late = []"
    "stalledInterval (opts late) = Given (Num 30000)"
    by (simp_all add: late_def fresh_def)
  have now: "now2 quietPass = 1200" "now2 overduePass = 2000" "now2 nothingDuePass = 2000"
    "snd (delaySet overduePass) = Returns (Num 1800, Some ''7-0'')"
    "snd (delaySet nothingDuePass) = Returns (Num 0, None)"
    by (simp_all add: quietPass_def overduePass_def nothingDuePass_def)
  have big: "(2001 :: real) + 30000 \<le> MAX_VALUE"
    by (simp add: MAX_VALUE_def)
  note quiet = promotion_step [of sampleExternals quietPass "Some ''4-0''" late]
  note gated = promotion_step [of sampleExternals overduePass "Some ''4-0''"
      "late\<lparr>closing := Some (Promise 0)\<rparr>"]
  note adopt = promotion_step [of sampleExternals overduePass "Some ''4-0''" late
      "Num 1800" "Some ''7-0''"]
  note reset = promotion_step [of sampleExternals nothingDuePass "Some ''4-0''" late
      "Num 0" None 30000 2001]
  have 1: "promotion sampleExternals quietPass (Some ''4-0'', late) = (Returns (), Some ''4-0'', late)"
    using quiet by (simp add: late now)
  have 2: "promotion sampleExternals overduePass (Some ''4-0'', late\<lparr>closing := Some (Promise 0)\<rparr>) =
     (Returns (), Some ''4-0'', late\<lparr>closing := Some (Promise 0), nextTimestamp := Num MAX_VALUE\<rparr>)"
    using gated by (simp add: late now)
  have 3: "trace (snd (snd (promotion sampleExternals overduePass (Some ''4-0'', late)))) =
     [ScriptUpdateDelaySet (Num 2000)] \<and>
   fst (snd (promotion sampleExternals overduePass (Some ''4-0'', late))) = Some ''7-0'' \<and>
   nextTimestamp (snd (snd (promotion sampleExternals overduePass (Some ''4-0'', late)))) = Num 1800"
    using adopt by (simp add: late now)
  have 4: "fst (snd (promotion sampleExternals nothingDuePass (Some ''4-0'', late))) = Some ''4-0'' \<and>
   nextTimestamp (snd (snd (promotion sampleExternals nothingDuePass (Some ''4-0'', late)))) =
     Num MAX_VALUE"
    using reset by (simp add: late now)
  have 5: "blockTime (toNumber (stalledInterval (opts (snd (snd (promotion sampleExternals nothingDuePass
       (Some ''4-0'', late)))))))
     (nextTimestamp (snd (snd (promotion sampleExternals nothingDuePass (Some ''4-0'', late)))))
     2001 = Num 30000"
    using reset 4 big late(4) by simp
  from 1 2 3 4 5 show ?thesis
    by simp
qed

text \<open>
  The claim as stated fails in a pass during which \<^verbatim>\<open>close()\<close> is called: the next
  timestamp 1650 has passed at time 2000, and the pass ends without a call of the
  promotion script.
\<close>

theorem promotion_skipped_once_closing:
  "nextTimestamp late = Num 1650 \<and> now2 closedWhileBlocked = 2000 \<and>
   iteration sampleExternals closedWhileBlocked ''bull:q:delay'' (Some ''4-0'', late) =
     (Returns (), Some ''4-0'',
      late\<lparr>nextTimestamp := Num MAX_VALUE, closing := Some (Promise 0),
           shutdowns := [Disconnect],
           trace := [ScriptMoveStalledJobsToWait,
              Emit (FailedEvent ''j1'' (Error ''job stalled more than allowable limit'') ''active''),
              Emit (StalledEvent ''j2'' ''active''),
              XreadBlock (Num 650) ''bull:q:delay'' (Some ''4-0''),
              Delay 5000]\<rparr>)"
  by (simp add: model_defs sampleExternals_def closedWhileBlocked_def quietPass_def late_def
      fresh_def)


subsection \<open>The stall sweep\<close>

lemma moveStalledJobsToWait_closing:
  "closing s \<noteq> None \<Longrightarrow> moveStalledJobsToWait script s = (Returns (), s)"
  by (auto simp add: moveStalledJobsToWait_def)

text \<open>
  Claim C5. For every result \<open>(failed, stalled)\<close> that the stall-recovery script returns,
  the sweep emits one \<^verbatim>\<open>failed\<close> event per entry of \<open>failed\<close>, with the reason
  \<^verbatim>\<open>job stalled more than allowable limit\<close> and the prior state \<^verbatim>\<open>active\<close>, and then one
  \<^verbatim>\<open>stalled\<close> event per entry of \<open>stalled\<close> with the prior state \<^verbatim>\<open>active\<close>; all failed
  events come before all stalled events. (The script is called only while no shutdown
  is pending: \<open>moveStalledJobsToWait_closing\<close>.)
\<close>

theorem stall_sweep_events:
  assumes "closing s = None"
  shows "fst (moveStalledJobsToWait (n, Returns (failed, stalled)) s) = Returns () \<and>
         trace (snd (moveStalledJobsToWait (n, Returns (failed, stalled)) s)) =
           trace s @ ScriptMoveStalledJobsToWait #
             map (\<lambda>jobId. Emit (FailedEvent jobId
                    (Error ''job stalled more than allowable limit'') ''active'')) failed @
             map (\<lambda>jobId. Emit (StalledEvent jobId ''active'')) stalled"
  using assms by (simp add: moveStalledJobsToWait_def await_def fold_emit_trace)

theorem stall_sweep_events_witness:
  "closing fresh = None \<and>
   trace (snd (moveStalledJobsToWait (0, Returns ([''j1''], [''j2''])) fresh)) =
     [ScriptMoveStalledJobsToWait,
      Emit (FailedEvent ''j1'' (Error ''job stalled more than allowable limit'') ''active''),
      Emit (StalledEvent ''j2'' ''active'')]"
proof -
  have h: "closing fresh = None"
    by (simp add: fresh_def)
  have "trace fresh = []"
    by (simp add: fresh_def)
  with stall_sweep_events [OF h, of 0 "[''j1'']" "[''j2'']"] h show ?thesis
    by simp
qed

subsection \<open>A second start\<close>

text \<open>
  Claim C8. On a scheduler whose running flag is set, \<^verbatim>\<open>run\<close> is rejected with the
  error \<^verbatim>\<open>Queue Scheduler is already running.\<close> and the instance state (the running
  flag, \<open>nextTimestamp\<close>, \<open>isBlocked\<close>, the pending shutdown, the trace) is as before.
  The stream cursor is a local variable of the call that is already running, which the
  rejected call never reaches.
\<close>

theorem run_while_running_rejected:
  assumes "running s"
  shows "run X st its s = (Rejected (Error ''Queue Scheduler is already running.''), s)"
  using assms by (simp add: run_def)

theorem run_while_running_rejected_witness:
  "running (snd (run sampleExternals startup0 [quietPass] fresh)) \<and>
   run sampleExternals startup0 [duePass] (snd (run sampleExternals startup0 [quietPass] fresh)) =
     (Rejected (Error ''Queue Scheduler is already running.''),
      snd (run sampleExternals startup0 [quietPass] fresh))"
proof -
  have h: "running (snd (run sampleExternals startup0 [quietPass] fresh))"
    by (simp add: run_def run_body_def model_defs sampleExternals_def startup0_def
        quietPass_def batch_def fresh_def)
  from run_while_running_rejected [OF h] h show ?thesis
    by simp
qed

subsection \<open>Closing\<close>

lemma closeCalls_pending: "closing s = Some p \<Longrightarrow> closeCalls n s = s"
  by (induction n) (simp_all add: close_def)

text \<open>
  Claim C9. \<^verbatim>\<open>close\<close> is idempotent: once a shutdown is pending, every later call
  returns the pending promise and starts nothing; the first call disconnects when
  \<open>isBlocked\<close> is set and closes gracefully otherwise.
\<close>

theorem close_idempotent:
  "(closing s = None \<longrightarrow>
      closing (snd (close s)) = Some (fst (close s)) \<and>
      shutdowns (snd (close s)) = shutdowns s @ [if isBlocked s then Disconnect else Close]) \<and>
   (closing s = Some p \<longrightarrow> close s = (p, s)) \<and>
   close (closeCalls n (snd (close s))) = (fst (close s), snd (close s))"
proof -
  have pending: "closing (snd (close s)) = Some (fst (close s))"
    by (simp add: close_def Let_def split: option.splits)
  have "closeCalls n (snd (close s)) = snd (close s)"
    using pending by (rule closeCalls_pending)
  moreover have "close (snd (close s)) = (fst (close s), snd (close s))"
    using pending by (simp add: close_def)
  ultimately show ?thesis
    by (simp add: close_def Let_def split: option.splits)
qed

theorem close_idempotent_witness:
  "close (fresh\<lparr>isBlocked := True\<rparr>) =
     (Promise 0, fresh\<lparr>isBlocked := True, closing := Some (Promise 0), shutdowns := [Disconnect]\<rparr>) \<and>
   close fresh = (Promise 0, fresh\<lparr>closing := Some (Promise 0), shutdowns := [Close]\<rparr>) \<and>
   close (closeCalls 2 (snd (close (fresh\<lparr>isBlocked := True\<rparr>)))) =
     (Promise 0, fresh\<lparr>isBlocked := True, closing := Some (Promise 0), shutdowns := [Disconnect]\<rparr>) \<and>
   close (fresh\<lparr>closing := Some (Promise 0), shutdowns := [Close]\<rparr>) =
     (Promise 0, fresh\<lparr>closing := Some (Promise 0), shutdowns := [Close]\<rparr>)"
proof -
  have a: "close (fresh\<lparr>isBlocked := True\<rparr>) =
     (Promise 0, fresh\<lparr>isBlocked := True, closing := Some (Promise 0), shutdowns := [Disconnect]\<rparr>)"
    by (simp add: close_def fresh_def Let_def)
  have b: "close fresh = (Promise 0, fresh\<lparr>closing := Some (Promise 0), shutdowns := [Close]\<rparr>)"
    by (simp add: close_def fresh_def Let_def)
  from close_idempotent [of "fresh\<lparr>isBlocked := True\<rparr>" "Promise 0" 2]
    close_idempotent [of "fresh\<lparr>closing := Some (Promise 0), shutdowns := [Close]\<rparr>" "Promise 0" 0]
    a b
  show ?thesis
    by simp
qed

subsection \<open>Errors of the blocking read\<close>

lemma closeCalls_first:
  assumes "closing s = None"
  shows "shutdowns (closeCalls (Suc n) s) = shutdowns s @ [if isBlocked s then Disconnect else Close]"
    and "closing (closeCalls (Suc n) s) = Some (Promise (length (shutdowns s)))"
proof -
  have c: "closing (snd (close s)) = Some (Promise (length (shutdowns s)))"
    using assms by (simp add: close_def Let_def)
  have "closeCalls (Suc n) s = snd (close s)"
    using closeCalls_pending [OF c] by simp
  then show "shutdowns (closeCalls (Suc n) s) = shutdowns s @ [if isBlocked s then Disconnect else Close]"
    and "closing (closeCalls (Suc n) s) = Some (Promise (length (shutdowns s)))"
    using assms by (simp_all add: close_def Let_def)
qed

lemma run_rejected:
  assumes "\<not> running s" and "fst (run_body X st its (s\<lparr>running := True\<rparr>)) = Rejected e"
  shows "fst (run X st its s) = Rejected e \<and> \<not> running (snd (run X st its s))"
  using assms by (cases "run_body X st its (s\<lparr>running := True\<rparr>)") (auto simp add: run_def)

text \<open>
  Claim C6. In the blocking read (a block time above zero, no shutdown pending), an
  error of the connection class is swallowed, the fixed pause \<^verbatim>\<open>DELAY_TIME_5\<close> follows,
  and the read returns no data; any other error is thrown again, ends the loop, and
  \<^verbatim>\<open>run\<close> rejects with it after clearing the running flag.
\<close>

theorem blocking_read_errors:
  assumes "closing s = None" and "0 < b"
  shows "(\<not> isNotConnectionError X e \<longrightarrow>
            fst (readDelayedData X (n, Throws e) m key c (Num b) s) = Returns None \<and>
            trace (snd (readDelayedData X (n, Throws e) m key c (Num b) s)) =
              trace s @ [XreadBlock (Num b) key c, Delay (DELAY_TIME_5 X)]) \<and>
         (isNotConnectionError X e \<longrightarrow>
            fst (readDelayedData X (n, Throws e) m key c (Num b) s) = Throws e \<and>
            trace (snd (readDelayedData X (n, Throws e) m key c (Num b) s)) =
              trace s @ [XreadBlock (Num b) key c]) \<and>
         (isNotConnectionError X e \<and> stalledJobs it = (0, Returns jobs) \<and>
          xread it = (n, Throws e) \<and>
          blockTime (toNumber (stalledInterval (opts s))) (nextTimestamp s) (now1 it) = Num b \<longrightarrow>
            fst (loop X key (it # its) (c, s)) = Rejected e \<and>
            trace (snd (snd (loop X key (it # its) (c, s)))) =
              trace (snd (moveStalledJobsToWait (stalledJobs it) s)) @ [XreadBlock (Num b) key c]) \<and>
         (\<not> running s \<and> fst (run_body X st passes (s\<lparr>running := True\<rparr>)) = Rejected e \<longrightarrow>
            fst (run X st passes s) = Rejected e \<and> \<not> running (snd (run X st passes s)))"
proof -
  have swallowed: "fst (readDelayedData X (n, Throws e) m key c (Num b) s) = Returns None \<and>
            trace (snd (readDelayedData X (n, Throws e) m key c (Num b) s)) =
              trace s @ [XreadBlock (Num b) key c, Delay (DELAY_TIME_5 X)]"
    if "\<not> isNotConnectionError X e"
    using that assms by (simp add: readDelayedData_def await_def)
  have rethrown: "fst (readDelayedData X (n, Throws e) m key c (Num b) s') = Throws e \<and>
            trace (snd (readDelayedData X (n, Throws e) m key c (Num b) s')) =
              trace s' @ [XreadBlock (Num b) key c]"
    if "isNotConnectionError X e" "closing s' = None" for s' m
    using that assms(2) by (simp add: readDelayedData_def await_def)
  have ended: "fst (loop X key (it # its) (c, s)) = Rejected e \<and>
            trace (snd (snd (loop X key (it # its) (c, s)))) =
              trace (snd (moveStalledJobsToWait (stalledJobs it) s)) @ [XreadBlock (Num b) key c]"
    if e: "isNotConnectionError X e" and j: "stalledJobs it = (0, Returns jobs)"
      and x: "xread it = (n, Throws e)"
      and bt: "blockTime (toNumber (stalledInterval (opts s))) (nextTimestamp s) (now1 it) = Num b"
  proof -
    obtain failed stalled where jobs: "jobs = (failed, stalled)"
      by force
    define s0 where "s0 = snd (moveStalledJobsToWait (stalledJobs it) s)"
    have m: "moveStalledJobsToWait (stalledJobs it) s = (Returns (), s0)"
      using assms(1) by (simp add: s0_def j jobs moveStalledJobsToWait_def await_def)
    have c0: "closing s0 = None"
      using assms(1) by (simp add: s0_def j jobs moveStalledJobsToWait_def await_def)
    have b0: "blockTime (toNumber (stalledInterval (opts s0))) (nextTimestamp s0) (now1 it) = Num b"
      using bt by (simp add: s0_def)
    obtain r1 s1 where rd: "readDelayedData X (n, Throws e) (backoff it) key c (Num b) s0 = (r1, s1)"
      by force
    from rethrown [OF e c0, of "backoff it"] rd
    have r1: "r1 = Throws e" "trace s1 = trace s0 @ [XreadBlock (Num b) key c]"
      by simp_all
    have "iteration X it key (c, s) = (Throws e, c, s1)"
      using m b0 rd r1(1) by (simp add: iteration_def guarded_def x)
    then show ?thesis
      using assms(1) r1(2) by (simp add: s0_def)
  qed
  from swallowed rethrown [OF _ assms(1)] ended run_rejected [of s X st passes e] show ?thesis
    by blast
qed


theorem blocking_read_errors_witness:
  "fst (readDelayedData sampleExternals (0, Throws (Error ''Connection is closed.'')) 0
         ''bull:q:delay'' (Some ''4-0'') (Num 650) late) = Returns None \<and>
   trace (snd (readDelayedData sampleExternals (0, Throws (Error ''Connection is closed.'')) 0
         ''bull:q:delay'' (Some ''4-0'') (Num 650) late)) =
     [XreadBlock (Num 650) ''bull:q:delay'' (Some ''4-0''), Delay 5000] \<and>
   fst (readDelayedData sampleExternals (0, Throws (Error ''ERR syntax error'')) 0
         ''bull:q:delay'' (Some ''4-0'') (Num 650) late) = Throws (Error ''ERR syntax error'') \<and>
   fst (loop sampleExternals ''bull:q:delay'' [brokenPass, quietPass] (Some ''4-0'', late)) =
     Rejected (Error ''ERR syntax error'') \<and>
   fst (run sampleExternals startup0 [brokenPass, quietPass] late) =
     Rejected (Error ''ERR syntax error'') \<and>
   \<not> running (snd (run sampleExternals startup0 [brokenPass, quietPass] late))"
proof -
  have h1: "closing late = None"
    by (simp add: late_def fresh_def)
  have h2: "(0 :: real) < 650"
    by simp
  have late: "trace late = []" "\<not> running late"
    by (simp_all add: late_def fresh_def)
  have x: "\<not> isNotConnectionError sampleExternals (Error ''Connection is closed.'')"
    "isNotConnectionError sampleExternals (Error ''ERR syntax error'')"
    "DELAY_TIME_5 sampleExternals = 5000"
    by (simp_all add: sampleExternals_def)
  have p: "stalledJobs brokenPass = (0, Returns ([''j1''], [''j2'']))"
    "xread brokenPass = (0, Throws (Error ''ERR syntax error''))"
    by (simp_all add: brokenPass_def quietPass_def)
  have bt: "blockTime (toNumber (stalledInterval (opts late))) (nextTimestamp late) (now1 brokenPass)
      = Num 650"
    by (simp add: blockTime_def late_def fresh_def brokenPass_def quietPass_def)
  have body: "fst (run_body sampleExternals startup0 [brokenPass, quietPass] (late\<lparr>running := True\<rparr>))
      = Rejected (Error ''ERR syntax error'')"
    by (simp add: run_body_def model_defs sampleExternals_def startup0_def brokenPass_def
        quietPass_def late_def fresh_def)
  note closed = blocking_read_errors [OF h1 h2, where X = sampleExternals
      and e = "Error ''Connection is closed.''" and n = 0 and m = 0
      and key = "''bull:q:delay''" and c = "Some ''4-0''"]
  note broken = blocking_read_errors [OF h1 h2, where X = sampleExternals
      and e = "Error ''ERR syntax error''" and n = 0 and m = 0
      and key = "''bull:q:delay''" and c = "Some ''4-0''" and it = brokenPass
      and its = "[quietPass]" and jobs = "([''j1''], [''j2''])" and st = startup0
      and passes = "[brokenPass, quietPass]"]
  from closed x late have 1:
    "fst (readDelayedData sampleExternals (0, Throws (Error ''Connection is closed.'')) 0
         ''bull:q:delay'' (Some ''4-0'') (Num 650) late) = Returns None \<and>
     trace (snd (readDelayedData sampleExternals (0, Throws (Error ''Connection is closed.'')) 0
         ''bull:q:delay'' (Some ''4-0'') (Num 650) late)) =
     [XreadBlock (Num 650) ''bull:q:delay'' (Some ''4-0''), Delay 5000]"
    by simp
  from broken x late p bt body h1 have 2:
    "fst (readDelayedData sampleExternals (0, Throws (Error ''ERR syntax error'')) 0
         ''bull:q:delay'' (Some ''4-0'') (Num 650) late) = Throws (Error ''ERR syntax error'') \<and>
     fst (loop sampleExternals ''bull:q:delay'' [brokenPass, quietPass] (Some ''4-0'', late)) =
       Rejected (Error ''ERR syntax error'') \<and>
     fst (run sampleExternals startup0 [brokenPass, quietPass] late) =
       Rejected (Error ''ERR syntax error'') \<and>
     \<not> running (snd (run sampleExternals startup0 [brokenPass, quietPass] late))"
    by simp
  from 1 2 show ?thesis
    by simp
qed


subsection \<open>The blocked flag\<close>

lemma moveStalledJobsToWait_isBlocked [simp]:
  "isBlocked (snd (moveStalledJobsToWait script s)) = isBlocked s"
  by (simp add: moveStalledJobsToWait_def await_def split: prod.splits outcome.splits)

lemma updateDelaySet_isBlocked [simp]:
  "isBlocked (snd (updateDelaySet X script ts s)) = isBlocked s"
  by (simp add: updateDelaySet_def await_def split: prod.splits)

lemma applyData_isBlocked [simp]:
  "isBlocked (snd (snd (applyData X it key data (c, s)))) = isBlocked s"
  by (auto simp add: applyData_def await_def
      split: prod.splits outcome.splits option.splits list.splits)
    (metis processEvents_frame(1) snd_conv)+

lemma promotion_isBlocked [simp]:
  "isBlocked (snd (snd (promotion X it (c, s)))) = isBlocked s"
  by (auto simp add: promotion_def Let_def split: prod.splits outcome.splits option.splits)
    (metis updateDelaySet_isBlocked snd_conv)+

lemma readDelayedData_not_blocked:
  "\<not> isBlocked s \<Longrightarrow> \<not> isBlocked (snd (readDelayedData X xr m key c bt s))"
  by (simp add: readDelayedData_def await_def split: prod.splits outcome.splits option.splits)

lemma run_not_blocked:
  assumes "\<not> isBlocked s"
  shows "\<not> isBlocked (snd (run X st its s))"
proof -
  have it: "\<not> isBlocked (snd (snd (iteration X it key (c, s))))" if "\<not> isBlocked s" for it key c s
    using that
    by (rule iteration_preserves [where P = "\<lambda>s. \<not> isBlocked s", rotated -1])
      (simp_all add: readDelayedData_not_blocked)
  have lp: "\<not> isBlocked (snd (snd (loop X key its (c, s))))" if "\<not> isBlocked s" for key c s
    using that by (rule loop_preserves [where P = "\<lambda>s. \<not> isBlocked s", rotated -1]) (rule it)
  have body: "\<not> isBlocked (snd (run_body X st its s))" if "\<not> isBlocked s" for s
    using that
    by (rule run_body_preserves [where P = "\<lambda>s. \<not> isBlocked s", rotated -1]) (simp_all add: lp)
  show ?thesis
    by (rule run_preserves [where P = "\<lambda>s. \<not> isBlocked s"]) (simp_all add: body assms)
qed

text \<open>
  Claim C10, amended. \<open>isBlocked\<close> is set immediately before the blocking read is
  issued, so that a \<^verbatim>\<open>close()\<close> arriving during the read disconnects, and it is false
  on every exit of \<^verbatim>\<open>readDelayedData\<close>: the return of data, the swallowed connection
  error and the error thrown again. A read without blocking leaves it false. It is
  still set during the pause that follows a swallowed connection error, so a
  \<^verbatim>\<open>close()\<close> arriving in that pause disconnects as well.
\<close>

theorem isBlocked_cleared_on_exit:
  "(closing s = None \<and> truthy bt \<longrightarrow>
      \<not> isBlocked (snd (readDelayedData X xr m key c bt s)) \<and>
      shutdowns (snd (readDelayedData X (Suc n, r) m key c bt s)) = shutdowns s @ [Disconnect]) \<and>
   (\<not> isBlocked s \<longrightarrow> \<not> isBlocked (snd (readDelayedData X xr m key c bt s))) \<and>
   (closing s = None \<and> \<not> truthy bt \<and> \<not> isBlocked s \<longrightarrow>
      shutdowns (snd (readDelayedData X (Suc n, r) m key c bt s)) = shutdowns s @ [Close]) \<and>
   (closing s = None \<and> truthy bt \<and> \<not> isNotConnectionError X e \<longrightarrow>
      shutdowns (snd (readDelayedData X (0, Throws e) (Suc n) key c bt s)) =
        shutdowns s @ [Disconnect])"
proof -
  have exits: "\<not> isBlocked (snd (readDelayedData X xr m key c bt s))"
    if "closing s = None" "truthy bt"
    using that
    by (simp add: readDelayedData_def await_def split: prod.splits outcome.splits option.splits)
  have during: "shutdowns (snd (readDelayedData X (Suc n, r) m key c bt s)) = shutdowns s @ [Disconnect]"
    if "closing s = None" "truthy bt"
  proof -
    let ?s1 = "act (XreadBlock bt key c) (s\<lparr>isBlocked := True\<rparr>)"
    have c1: "closing ?s1 = None" using that(1) by simp
    have "shutdowns (closeCalls (Suc n) ?s1) = shutdowns s @ [Disconnect]"
      using closeCalls_first(1) [OF c1, of n] by simp
    moreover have "closing (closeCalls (Suc n) ?s1) \<noteq> None"
      using closeCalls_first(2) [OF c1, of n] by simp
    then have "closeCalls m (act a (closeCalls (Suc n) ?s1)) = act a (closeCalls (Suc n) ?s1)" for a
      by (metis closeCalls_pending act_frame(4) option.exhaust)
    ultimately show ?thesis
      using that
      by (simp add: readDelayedData_def await_def del: closeCalls.simps(2)
          split: prod.splits outcome.splits option.splits)
  qed
  have plain: "shutdowns (snd (readDelayedData X (Suc n, r) m key c bt s)) = shutdowns s @ [Close]"
    if "closing s = None" "\<not> truthy bt" "\<not> isBlocked s"
  proof -
    let ?s1 = "act (Xread key c) s"
    have c1: "closing ?s1 = None" using that(1) by simp
    have "shutdowns (closeCalls (Suc n) ?s1) = shutdowns s @ [Close]"
      using closeCalls_first(1) [OF c1, of n] that(3) by simp
    then show ?thesis
      using that
      by (simp add: readDelayedData_def await_def del: closeCalls.simps(2)
          split: prod.splits outcome.splits option.splits)
  qed
  have backoff: "shutdowns (snd (readDelayedData X (0, Throws e) (Suc n) key c bt s)) =
        shutdowns s @ [Disconnect]"
    if "closing s = None" "truthy bt" "\<not> isNotConnectionError X e"
  proof -
    let ?s2 = "act (Delay (DELAY_TIME_5 X)) (act (XreadBlock bt key c) (s\<lparr>isBlocked := True\<rparr>))"
    have c2: "closing ?s2 = None" using that(1) by simp
    have "shutdowns (closeCalls (Suc n) ?s2) = shutdowns s @ [Disconnect]"
      using closeCalls_first(1) [OF c2, of n] by simp
    then show ?thesis
      using that
      by (simp add: readDelayedData_def await_def del: closeCalls.simps(2))
  qed
  from exits during plain backoff readDelayedData_not_blocked [of s X xr m key c bt]
  show ?thesis
    by blast
qed

theorem isBlocked_cleared_on_exit_witness:
  "\<not> isBlocked (snd (readDelayedData sampleExternals (0, Returns None) 0
         ''bull:q:delay'' (Some ''4-0'') (Num 650) late)) \<and>
   \<not> isBlocked (snd (readDelayedData sampleExternals (0, Throws (Error ''Connection is closed.'')) 0
         ''bull:q:delay'' (Some ''4-0'') (Num 650) late)) \<and>
   \<not> isBlocked (snd (readDelayedData sampleExternals (0, Throws (Error ''ERR syntax error'')) 0
         ''bull:q:delay'' (Some ''4-0'') (Num 650) late)) \<and>
   shutdowns (snd (readDelayedData sampleExternals (Suc 0, Returns None) 0
         ''bull:q:delay'' (Some ''4-0'') (Num 650) late)) = [Disconnect] \<and>
   shutdowns (snd (readDelayedData sampleExternals (Suc 0, Returns None) 0
         ''bull:q:delay'' (Some ''4-0'') (Num 0) late)) = [Close] \<and>
   shutdowns (snd (readDelayedData sampleExternals (0, Throws (Error ''Connection is closed.'')) (Suc 0)
         ''bull:q:delay'' (Some ''4-0'') (Num 650) late)) = [Disconnect]"
proof -
  have late: "closing late = None" "\<not> isBlocked late" "shutdowns late = []"
    by (simp_all add: late_def fresh_def)
  have x: "\<not> isNotConnectionError sampleExternals (Error ''Connection is closed.'')"
    by (simp add: sampleExternals_def)
  note blocking = isBlocked_cleared_on_exit [where s = late and bt = "Num 650"
      and X = sampleExternals and m = 0 and key = "''bull:q:delay''" and c = "Some ''4-0''"
      and n = 0 and r = "Returns None" and e = "Error ''Connection is closed.''"]
  note plain = isBlocked_cleared_on_exit [where s = late and bt = "Num 0"
      and X = sampleExternals and m = 0 and key = "''bull:q:delay''" and c = "Some ''4-0''"
      and n = 0 and r = "Returns None"]
  from blocking [where xr = "(0, Returns None)"]
    blocking [where xr = "(0, Throws (Error ''Connection is closed.''))"]
    blocking [where xr = "(0, Throws (Error ''ERR syntax error''))"]
    plain late x
  show ?thesis
    by simp
qed

text \<open>
  The claim as stated fails: here the blocking read has already failed (no
  \<^verbatim>\<open>close()\<close> arrived during it), \<^verbatim>\<open>close()\<close> is called during the pause, and it
  finds \<open>isBlocked\<close> set and disconnects.
\<close>

theorem close_during_backoff_disconnects:
  "fst (readDelayedData sampleExternals (0, Throws (Error ''Connection is closed.'')) (Suc 0)
         ''bull:q:delay'' (Some ''4-0'') (Num 650) late) = Returns None \<and>
   shutdowns (snd (readDelayedData sampleExternals (0, Throws (Error ''Connection is closed.''))
         (Suc 0) ''bull:q:delay'' (Some ''4-0'') (Num 650) late)) = [Disconnect] \<and>
   trace (snd (readDelayedData sampleExternals (0, Throws (Error ''Connection is closed.''))
         (Suc 0) ''bull:q:delay'' (Some ''4-0'') (Num 650) late)) =
     [XreadBlock (Num 650) ''bull:q:delay'' (Some ''4-0''), Delay 5000]"
  by (simp add: model_defs sampleExternals_def late_def fresh_def)


subsection \<open>Constructing a scheduler\<close>

lemma constructor_fresh:
  "constructor ''q'' (noOptions\<lparr>autorun := Given False\<rparr>) = Inr fresh"
  by (simp add: constructor_def noOptions_def fresh_def)

lemma autorun_error_event:
  "trace (autorunSettled sampleExternals startup0 [brokenPass] (fresh\<lparr>running := True\<rparr>)) =
     [WaitUntilReady, ClientSetname, ScriptUpdateDelaySet (Num 900), ScriptMoveStalledJobsToWait,
      Emit (FailedEvent ''j1'' (Error ''job stalled more than allowable limit'') ''active''),
      Emit (StalledEvent ''j2'' ''active''),
      XreadBlock (Num 650) ''bull:q:delay'' (Some ''4-0''),
      Emit (ErrorEvent (Error ''ERR syntax error''))]"
  by (simp add: autorunSettled_def run_body_def model_defs sampleExternals_def startup0_def
      brokenPass_def quietPass_def fresh_def)

text \<open>
  Claim C7, amended. The constructor throws, before \<^verbatim>\<open>run\<close> is called, exactly when
  the caller's \<open>stalledInterval\<close> is present and is \<^verbatim>\<open>undefined\<close>, \<^verbatim>\<open>NaN\<close> or zero.
  When the caller gives no \<open>stalledInterval\<close> the default 30000 applies and the
  scheduler is constructed, running at once unless \<open>autorun\<close> is false.
\<close>

theorem constructor_stalledInterval:
  "(isl (constructor queueName given) \<longleftrightarrow>
      stalledInterval given = Undefined \<or> stalledInterval given = Given NaN \<or>
      stalledInterval given = Given (Num 0)) \<and>
   (isl (constructor queueName given) \<longrightarrow>
      constructor queueName given = Inl (Error ''Stalled interval cannot be zero or undefined'')) \<and>
   (stalledInterval given = Missing \<longrightarrow>
      (\<exists>s. constructor queueName given = Inr s \<and>
           stalledInterval (opts s) = Given (Num 30000) \<and>
           running s = withDefault True (autorun given)))"
proof -
  have "truthy (toNumber (spread (Num 30000) p)) \<longleftrightarrow>
        \<not> (p = Undefined \<or> p = Given NaN \<or> p = Given (Num 0))" for p
  proof (cases p)
    case (Given n)
    then show ?thesis by (cases n) simp_all
  qed simp_all
  then show ?thesis
    by (simp add: constructor_def Let_def)
qed


theorem constructor_stalledInterval_witness:
  "constructor ''q'' (noOptions\<lparr>stalledInterval := Given (Num 0)\<rparr>) =
     Inl (Error ''Stalled interval cannot be zero or undefined'') \<and>
   constructor ''q'' (noOptions\<lparr>stalledInterval := Undefined\<rparr>) =
     Inl (Error ''Stalled interval cannot be zero or undefined'') \<and>
   \<not> isl (constructor ''q'' (noOptions\<lparr>stalledInterval := Given (Num 500)\<rparr>)) \<and>
   (\<exists>s. constructor ''q'' (noOptions\<lparr>autorun := Given False\<rparr>) = Inr s \<and>
        stalledInterval (opts s) = Given (Num 30000) \<and> \<not> running s)"
proof -
  note zero = constructor_stalledInterval [of "''q''" "noOptions\<lparr>stalledInterval := Given (Num 0)\<rparr>"]
  note undef = constructor_stalledInterval [of "''q''" "noOptions\<lparr>stalledInterval := Undefined\<rparr>"]
  note set = constructor_stalledInterval [of "''q''" "noOptions\<lparr>stalledInterval := Given (Num 500)\<rparr>"]
  note unset = constructor_stalledInterval [of "''q''" "noOptions\<lparr>autorun := Given False\<rparr>"]
  have 1: "constructor ''q'' (noOptions\<lparr>stalledInterval := Given (Num 0)\<rparr>) =
     Inl (Error ''Stalled interval cannot be zero or undefined'')"
    using zero by simp
  have 2: "constructor ''q'' (noOptions\<lparr>stalledInterval := Undefined\<rparr>) =
     Inl (Error ''Stalled interval cannot be zero or undefined'')"
    using undef by simp
  have 3: "\<not> isl (constructor ''q'' (noOptions\<lparr>stalledInterval := Given (Num 500)\<rparr>))"
    using set by simp
  have 4: "\<exists>s. constructor ''q'' (noOptions\<lparr>autorun := Given False\<rparr>) = Inr s \<and>
        stalledInterval (opts s) = Given (Num 30000) \<and> \<not> running s"
    using unset by (simp add: noOptions_def)
  from 1 2 3 4 show ?thesis
    by simp
qed

text \<open>
  The claim as stated fails for a caller that leaves \<open>stalledInterval\<close> unset: the
  scheduler is constructed with the interval 30000 and, \<open>autorun\<close> being on by default,
  is running when the constructor returns.
\<close>

theorem constructor_default_interval:
  "constructor ''q'' noOptions = Inr (fresh\<lparr>running := True\<rparr>)"
  by (simp add: constructor_def noOptions_def fresh_def)


end
